theory Spec2Isabelle
  imports Complex_Main "HOL-Library.Sublist"
begin

section \<open>JavaScript string primitives\<close>

text \<open>
  A JavaScript string is modelled as a \<^typ>\<open>string\<close>: a list of code units, restricted to
  the 8-bit range. \<open>length\<close> is \<open>String.prototype.length\<close>.
\<close>

definition is_space :: "char \<Rightarrow> bool" where
  "is_space c = (c \<in> set [CHR 0x09, CHR 0x0A, CHR 0x0B, CHR 0x0C, CHR 0x0D, CHR 0x20, CHR 0xA0])"

definition trim :: "string \<Rightarrow> string" where
  "trim s = rev (dropWhile is_space (rev (dropWhile is_space s)))"

definition js_slice :: "string \<Rightarrow> int \<Rightarrow> int \<Rightarrow> string" where
  "js_slice s a b =
     (let n = int (length s);
          from = (if a < 0 then max (n + a) 0 else min a n);
          to = (if b < 0 then max (n + b) 0 else min b n)
      in take (nat (to - from)) (drop (nat from) s))"

definition js_slice_from :: "string \<Rightarrow> int \<Rightarrow> string" where
  "js_slice_from s a = js_slice s a (int (length s))"

definition match_at :: "string \<Rightarrow> string \<Rightarrow> nat \<Rightarrow> bool" where
  "match_at text pat k = (k + length pat \<le> length text \<and> take (length pat) (drop k text) = pat)"

fun last_index_from :: "string \<Rightarrow> string \<Rightarrow> nat \<Rightarrow> int" where
  "last_index_from text pat 0 = (if match_at text pat 0 then 0 else - 1)"
| "last_index_from text pat (Suc k) =
     (if match_at text pat (Suc k) then int (Suc k) else last_index_from text pat k)"

definition lastIndexOf :: "string \<Rightarrow> string \<Rightarrow> int \<Rightarrow> int" where
  "lastIndexOf text pat pos = last_index_from text pat (min (nat pos) (length text))"

section \<open>The chunker\<close>

definition CHUNK_SIZE :: int where "CHUNK_SIZE = 1600"
definition CHUNK_OVERLAP :: int where "CHUNK_OVERLAP = 320"

text \<open>
  The break-point search of one loop iteration. The comparison
  \<open>breakPoint < start + chunkSize * 0.5\<close> is written with both sides doubled.
\<close>

definition find_break :: "string \<Rightarrow> int \<Rightarrow> int \<Rightarrow> int" where
  "find_break text start chunkSize =
     (let end = start + chunkSize;
          bp1 = lastIndexOf text ''. '' end;
          bp2 = (if bp1 \<le> start \<or> 2 * bp1 < 2 * start + chunkSize
                 then lastIndexOf text [CHR 0x0A] end else bp1);
          bp3 = (if bp2 \<le> start \<or> 2 * bp2 < 2 * start + chunkSize
                 then lastIndexOf text '' '' end else bp2)
      in if bp3 \<le> start then end else bp3)"

text \<open>
  The \<open>while\<close> loop of \<open>chunkText\<close>. The result is \<open>None\<close> when the loop does
  not return.
\<close>

partial_function (option) chunk_loop ::
  "string \<Rightarrow> int \<Rightarrow> int \<Rightarrow> int \<Rightarrow> string list \<Rightarrow> string list option" where
  "chunk_loop text chunkSize overlap start chunks =
     (if start < int (length text) then
        (if start + chunkSize \<ge> int (length text)
         then Some (chunks @ [trim (js_slice_from text start)])
         else
           (let breakPoint = find_break text start chunkSize;
                start' = breakPoint + 1 - overlap
            in chunk_loop text chunkSize overlap (if start' < 0 then 0 else start')
                 (chunks @ [trim (js_slice text start (breakPoint + 1))])))
      else Some chunks)"

declare chunk_loop.simps [code]

definition chunkText :: "string \<Rightarrow> int \<Rightarrow> int \<Rightarrow> string list option" where
  "chunkText text chunkSize overlap =
     (if int (length text) \<le> chunkSize then Some [trim text]
      else map_option (filter (\<lambda>c. length c > 0)) (chunk_loop text chunkSize overlap 0 []))"

section \<open>JavaScript containers and more string primitives\<close>

text \<open>
  A JavaScript \<open>Map\<close> iterates in insertion order, so it is an association list:
  \<open>set\<close> replaces the value of a key that is present where it stands and appends a new
  key at the end. A JavaScript \<open>Set\<close> is the list of its elements in insertion order.
\<close>

primrec map_set :: "'k \<Rightarrow> 'v \<Rightarrow> ('k \<times> 'v) list \<Rightarrow> ('k \<times> 'v) list" where
  "map_set k v [] = [(k, v)]"
| "map_set k v (p # ps) = (if fst p = k then (k, v) # ps else p # map_set k v ps)"

definition map_get :: "('k \<times> 'v) list \<Rightarrow> 'k \<Rightarrow> 'v option" where
  "map_get m k = map_of m k"

definition map_has :: "('k \<times> 'v) list \<Rightarrow> 'k \<Rightarrow> bool" where
  "map_has m k = (map_of m k \<noteq> None)"

definition set_add :: "'a \<Rightarrow> 'a list \<Rightarrow> 'a list" where
  "set_add x xs = (if x \<in> set xs then xs else xs @ [x])"

definition new_Set :: "'a list \<Rightarrow> 'a list" where
  "new_Set xs = fold set_add xs []"

definition toLowerCase_char :: "char \<Rightarrow> char" where
  "toLowerCase_char c =
     (let n = (of_char c :: nat)
      in if (65 \<le> n \<and> n \<le> 90) \<or> (192 \<le> n \<and> n \<le> 222 \<and> n \<noteq> 215)
         then char_of (n + 32) else c)"

definition toLowerCase :: "string \<Rightarrow> string" where
  "toLowerCase s = map toLowerCase_char s"

definition js_includes :: "string \<Rightarrow> string \<Rightarrow> bool" where
  "js_includes s sub = sublist sub s"

text \<open>\<open>s.split(/\s+/)\<close>: every maximal run of white space is one separator.\<close>

function split_ws_from :: "string \<Rightarrow> string \<Rightarrow> string list" where
  "split_ws_from cur [] = [rev cur]"
| "split_ws_from cur (c # cs) =
     (if is_space c then rev cur # split_ws_from [] (dropWhile is_space cs)
      else split_ws_from (c # cur) cs)"
  by pat_completeness auto
termination
  by (relation "measure (\<lambda>(cur, s). length s)") (auto simp: length_dropWhile_le less_Suc_eq_le)

definition split_ws :: "string \<Rightarrow> string list" where
  "split_ws s = split_ws_from [] s"

section \<open>The entity graph\<close>

record EntityNode =
  n_name :: string
  n_type :: string
  n_summary :: string
  n_sessionIds :: "string list"

record RelationshipEdge =
  e_source :: string
  e_target :: string
  e_relation :: string
  e_date :: "string option"
  e_sessionId :: string

record EntityResult =
  r_name :: string
  r_type :: string
  r_summary :: string

record RelationshipResult =
  r_source :: string
  r_target :: string
  r_relation :: string
  r_date :: "string option"

record GraphSearchResult =
  entities :: "EntityResult list"
  relationships :: "RelationshipResult list"

definition MAX_GRAPH_ENTITIES :: nat where "MAX_GRAPH_ENTITIES = 10"
definition MAX_GRAPH_RELATIONSHIPS :: nat where "MAX_GRAPH_RELATIONSHIPS = 20"

record EntityGraph =
  nodes :: "(string \<times> EntityNode) list"
  edgeSet :: "string list"
  adjacency :: "(string \<times> RelationshipEdge list) list"
  nameIndex :: "(string \<times> string list) list"

definition new_EntityGraph :: EntityGraph where
  "new_EntityGraph = \<lparr>nodes = [], edgeSet = [], adjacency = [], nameIndex = []\<rparr>"

text \<open>
  \<open>if (!this.nameIndex.has(key)) this.nameIndex.set(key, new Set());
  this.nameIndex.get(key)!.add(canonical)\<close>
\<close>

definition index_add :: "string \<Rightarrow> string \<Rightarrow> (string \<times> string list) list \<Rightarrow> (string \<times> string list) list" where
  "index_add key canonical idx =
     map_set key (set_add canonical (case map_get idx key of None \<Rightarrow> [] | Some cs \<Rightarrow> cs)) idx"

definition index_name :: "string \<Rightarrow> (string \<times> string list) list \<Rightarrow> (string \<times> string list) list" where
  "index_name canonical idx =
     fold (\<lambda>part ix. if length part > 2 then index_add (toLowerCase part) canonical ix else ix)
       (split_ws canonical) (index_add (toLowerCase canonical) canonical idx)"

definition addEntity :: "string \<Rightarrow> string \<Rightarrow> string \<Rightarrow> string \<Rightarrow> EntityGraph \<Rightarrow> EntityGraph" where
  "addEntity name type summary sessionId g =
     (let canonical = trim name in
      if canonical = [] then g
      else
        let nodes' =
          (case map_get (nodes g) canonical of
             Some existing \<Rightarrow>
               let e1 = existing\<lparr>n_sessionIds := set_add sessionId (n_sessionIds existing)\<rparr>;
                   e2 = (if summary \<noteq> [] \<and> \<not> js_includes (n_summary e1) (take 40 summary)
                         then e1\<lparr>n_summary := take 500 (n_summary e1 @ '' '' @ summary)\<rparr>
                         else e1)
               in map_set canonical e2 (nodes g)
           | None \<Rightarrow>
               map_set canonical
                 \<lparr>n_name = canonical, n_type = toLowerCase type, n_summary = summary,
                  n_sessionIds = [sessionId]\<rparr> (nodes g))
        in g\<lparr>nodes := nodes', nameIndex := index_name canonical (nameIndex g)\<rparr>)"

definition edge_key :: "string \<Rightarrow> string \<Rightarrow> string \<Rightarrow> string" where
  "edge_key source relation target = source @ ''|'' @ relation @ ''|'' @ target"

definition edgeKey :: "RelationshipEdge \<Rightarrow> string" where
  "edgeKey edge = edge_key (e_source edge) (e_relation edge) (e_target edge)"

text \<open>
  \<open>if (!this.adjacency.has(k)) this.adjacency.set(k, []); this.adjacency.get(k)!.push(edge)\<close>
\<close>

definition adj_push :: "string \<Rightarrow> RelationshipEdge \<Rightarrow> (string \<times> RelationshipEdge list) list
    \<Rightarrow> (string \<times> RelationshipEdge list) list" where
  "adj_push k edge adj = map_set k ((case map_get adj k of None \<Rightarrow> [] | Some es \<Rightarrow> es) @ [edge]) adj"

definition addRelationship :: "RelationshipEdge \<Rightarrow> EntityGraph \<Rightarrow> EntityGraph" where
  "addRelationship edge g =
     (let key = edgeKey edge in
      if key \<in> set (edgeSet g) then g
      else g\<lparr>edgeSet := set_add key (edgeSet g),
              adjacency := adj_push (e_target edge) edge (adj_push (e_source edge) edge (adjacency g))\<rparr>)"

definition nodeCount :: "EntityGraph \<Rightarrow> nat" where
  "nodeCount g = length (nodes g)"

definition edgeCount :: "EntityGraph \<Rightarrow> nat" where
  "edgeCount g = length (edgeSet g)"

definition clear_graph :: "EntityGraph \<Rightarrow> EntityGraph" where
  "clear_graph g = g\<lparr>nodes := [], edgeSet := [], adjacency := [], nameIndex := []\<rparr>"

subsection \<open>Bounded traversal: \<open>getContext\<close>\<close>

record ctx =
  visitedNodes :: "string list"
  resultEntities :: "EntityResult list"
  resultRels :: "RelationshipResult list"
  seenEdges :: "string list"
  nextFrontier :: "string list"

definition to_result :: "EntityNode \<Rightarrow> EntityResult" where
  "to_result node = \<lparr>r_name = n_name node, r_type = n_type node, r_summary = n_summary node\<rparr>"

definition push_entity :: "EntityGraph \<Rightarrow> string \<Rightarrow> ctx \<Rightarrow> ctx" where
  "push_entity g name st =
     (case map_get (nodes g) name of
        Some node \<Rightarrow>
          if length (resultEntities st) < MAX_GRAPH_ENTITIES
          then st\<lparr>resultEntities := resultEntities st @ [to_result node]\<rparr> else st
      | None \<Rightarrow> st)"

text \<open>The body of the loop over the seeds.\<close>

definition seed_step :: "EntityGraph \<Rightarrow> string \<Rightarrow> ctx \<Rightarrow> ctx" where
  "seed_step g name st =
     (if name \<in> set (visitedNodes st) then st
      else push_entity g name (st\<lparr>visitedNodes := set_add name (visitedNodes st)\<rparr>))"

text \<open>The body of the loop over the edges of one frontier name.\<close>

definition edge_step :: "EntityGraph \<Rightarrow> string \<Rightarrow> RelationshipEdge \<Rightarrow> ctx \<Rightarrow> ctx" where
  "edge_step g name edge st =
     (let key = edgeKey edge in
      if key \<in> set (seenEdges st) then st
      else
        let st1 = st\<lparr>seenEdges := set_add key (seenEdges st)\<rparr>;
            st2 = (if length (resultRels st1) < MAX_GRAPH_RELATIONSHIPS
                   then st1\<lparr>resultRels := resultRels st1 @
                          [\<lparr>r_source = e_source edge, r_target = e_target edge,
                            r_relation = e_relation edge, r_date = e_date edge\<rparr>]\<rparr>
                   else st1);
            other = (if e_source edge = name then e_target edge else e_source edge)
        in if other \<notin> set (visitedNodes st2)
           then push_entity g other
                  (st2\<lparr>visitedNodes := set_add other (visitedNodes st2),
                        nextFrontier := nextFrontier st2 @ [other]\<rparr>)
           else st2)"

definition name_step :: "EntityGraph \<Rightarrow> string \<Rightarrow> ctx \<Rightarrow> ctx" where
  "name_step g name st =
     fold (edge_step g name) (case map_get (adjacency g) name of None \<Rightarrow> [] | Some es \<Rightarrow> es) st"

text \<open>
  The loop \<open>for (hop = 0; hop < maxHops && frontier.length > 0; hop++)\<close>; the first
  argument counts the hops that remain.
\<close>

fun hop_loop :: "EntityGraph \<Rightarrow> nat \<Rightarrow> string list \<Rightarrow> ctx \<Rightarrow> ctx" where
  "hop_loop g 0 frontier st = st"
| "hop_loop g (Suc k) frontier st =
     (if frontier = [] then st
      else let st' = fold (name_step g) frontier (st\<lparr>nextFrontier := []\<rparr>)
           in hop_loop g k (nextFrontier st') st')"

definition new_ctx :: ctx where
  "new_ctx = \<lparr>visitedNodes = [], resultEntities = [], resultRels = [], seenEdges = [],
     nextFrontier = []\<rparr>"

definition seed_layer :: "EntityGraph \<Rightarrow> string list \<Rightarrow> ctx" where
  "seed_layer g entityNames = fold (seed_step g) entityNames new_ctx"

definition getContext :: "EntityGraph \<Rightarrow> string list \<Rightarrow> nat \<Rightarrow> GraphSearchResult" where
  "getContext g entityNames maxHops =
     (let st = hop_loop g maxHops entityNames (seed_layer g entityNames)
      in \<lparr>entities = resultEntities st, relationships = resultRels st\<rparr>)"

subsection \<open>Snapshots: \<open>save\<close> and \<open>load\<close>\<close>

record SerializedEntityNode =
  s_name :: string
  s_type :: string
  s_summary :: string
  s_sessionIds :: "string list"

record SerializedGraph =
  sg_nodes :: "SerializedEntityNode list"
  sg_edges :: "RelationshipEdge list"

definition save_edge :: "RelationshipEdge \<Rightarrow> RelationshipEdge list \<times> string list
    \<Rightarrow> RelationshipEdge list \<times> string list" where
  "save_edge edge acc =
     (case acc of (edges, seen) \<Rightarrow>
        if edgeKey edge \<notin> set seen then (edges @ [edge], set_add (edgeKey edge) seen)
        else (edges, seen))"

definition save :: "EntityGraph \<Rightarrow> SerializedGraph" where
  "save g =
     \<lparr>sg_nodes = map (\<lambda>(k, node). \<lparr>s_name = n_name node, s_type = n_type node,
                     s_summary = n_summary node, s_sessionIds = n_sessionIds node\<rparr>) (nodes g),
      sg_edges = fst (fold save_edge (concat (map snd (adjacency g))) ([], []))\<rparr>"

definition load_node :: "SerializedEntityNode \<Rightarrow> EntityGraph \<Rightarrow> EntityGraph" where
  "load_node node g =
     g\<lparr>nodes := map_set (s_name node)
                  \<lparr>n_name = s_name node, n_type = s_type node, n_summary = s_summary node,
                   n_sessionIds = new_Set (s_sessionIds node)\<rparr> (nodes g),
       nameIndex := index_name (s_name node) (nameIndex g)\<rparr>"

definition load :: "SerializedGraph \<Rightarrow> EntityGraph \<Rightarrow> EntityGraph" where
  "load data g = fold addRelationship (sg_edges data) (fold load_node (sg_nodes data) (clear_graph g))"

section \<open>The relational store: entities\<close>

text \<open>
  A row of the table \<open>rag_entities\<close>, whose primary key is \<open>(container_tag, name)\<close>. The
  table is the list of its rows.
\<close>

record EntityRow =
  er_container_tag :: string
  er_name :: string
  er_type :: string
  er_summary :: string
  er_session_ids :: "string list"

text \<open>
  \<open>PgStore.addEntity\<close>: \<open>INSERT ... ON CONFLICT (container_tag, name) DO UPDATE SET summary =
  SUBSTRING(rag_entities.summary || ' ' || EXCLUDED.summary FROM 1 FOR 500), session_ids =
  array_cat(rag_entities.session_ids, EXCLUDED.session_ids)\<close>.
\<close>

definition pg_addEntity ::
  "string \<Rightarrow> string \<Rightarrow> string \<Rightarrow> string \<Rightarrow> string \<Rightarrow> EntityRow list \<Rightarrow> EntityRow list" where
  "pg_addEntity containerTag name type summary sessionId rows =
     (let canonical = trim name in
      if canonical = [] then rows
      else if \<exists>r \<in> set rows. er_container_tag r = containerTag \<and> er_name r = canonical
      then map (\<lambda>r. if er_container_tag r = containerTag \<and> er_name r = canonical
                      then r\<lparr>er_summary := take 500 (er_summary r @ '' '' @ summary),
                             er_session_ids := er_session_ids r @ [sessionId]\<rparr>
                      else r) rows
      else rows @ [\<lparr>er_container_tag = containerTag, er_name = canonical,
                     er_type = toLowerCase type, er_summary = summary,
                     er_session_ids = [sessionId]\<rparr>])"

subsection \<open>Notions used to state the properties of the graph\<close>

definition caps :: "ctx \<Rightarrow> bool" where
  "caps st = (length (resultEntities st) \<le> MAX_GRAPH_ENTITIES
            \<and> length (resultRels st) \<le> MAX_GRAPH_RELATIONSHIPS)"

text \<open>The part of the traversal state that decides where the traversal goes next.\<close>

definition traversal :: "ctx \<Rightarrow> string list \<times> string list \<times> string list" where
  "traversal st = (visitedNodes st, seenEdges st, nextFrontier st)"

text \<open>The edges a graph holds: those of its adjacency lists.\<close>

definition edges_of :: "EntityGraph \<Rightarrow> RelationshipEdge set" where
  "edges_of g = set (concat (map snd (adjacency g)))"

text \<open>
  The representation invariant of the class: every node is stored under its own name,
  names and edge keys are not repeated, and \<open>edgeSet\<close> holds the keys of the stored edges,
  one edge per key.
\<close>

definition wf_graph :: "EntityGraph \<Rightarrow> bool" where
  "wf_graph g =
     (distinct (map fst (nodes g))
      \<and> list_all (\<lambda>(k, node). n_name node = k \<and> distinct (n_sessionIds node)) (nodes g)
      \<and> distinct (edgeSet g)
      \<and> set (edgeSet g) = edgeKey ` edges_of g
      \<and> inj_on edgeKey (edges_of g))"

text \<open>The invariant of the loop in \<open>save\<close>: the keys seen are those of the edges kept.\<close>

definition saved_ok :: "RelationshipEdge list \<times> string list \<Rightarrow> bool" where
  "saved_ok acc = (set (snd acc) = edgeKey ` set (fst acc))"

definition lowercase_types :: "EntityGraph \<Rightarrow> bool" where
  "lowercase_types g = list_all (\<lambda>(k, node). toLowerCase (n_type node) = n_type node) (nodes g)"

text \<open>The graphs a program can build through the public methods of the class.\<close>

inductive reachable :: "EntityGraph \<Rightarrow> bool" where
  reach_new: "reachable new_EntityGraph"
| reach_addEntity: "reachable g \<Longrightarrow> reachable (addEntity name type summary sessionId g)"
| reach_addRelationship: "reachable g \<Longrightarrow> reachable (addRelationship edge g)"
| reach_load: "reachable g \<Longrightarrow> reachable (load data g)"
| reach_clear: "reachable g \<Longrightarrow> reachable (clear_graph g)"

text \<open>The graph of three entities and two relationships around Alice.\<close>

definition scenarioC :: EntityGraph where
  "scenarioC =
     addRelationship \<lparr>e_source = ''Alice'', e_target = ''Acme'', e_relation = ''works_at'',
                       e_date = None, e_sessionId = ''s1''\<rparr>
      (addRelationship \<lparr>e_source = ''Alice'', e_target = ''Bob'', e_relation = ''married_to'',
                       e_date = None, e_sessionId = ''s1''\<rparr>
        (addEntity ''Acme'' ''organization'' ''Acme is a company'' ''s1''
          (addEntity ''Bob'' ''person'' ''Bob is married to Alice'' ''s1''
            (addEntity ''Alice'' ''Person'' ''Alice works at Acme'' ''s1'' new_EntityGraph))))"

section \<open>The extraction parser\<close>

text \<open>\<open>s.indexOf(pat)\<close>: the first index at which \<open>pat\<close> occurs, if any.\<close>

primrec index_of :: "string \<Rightarrow> string \<Rightarrow> nat option" where
  "index_of pat [] = (if pat = [] then Some 0 else None)"
| "index_of pat (c # cs) =
     (if prefix pat (c # cs) then Some 0 else map_option Suc (index_of pat cs))"

text \<open>
  \<open>s.match(/<tag>([\s\S]*?)<\/tag>/)\<close>, first capture group: the text between the first
  opening tag and the first closing tag after it.
\<close>

definition open_tag :: "string \<Rightarrow> string" where
  "open_tag tag = ''<'' @ tag @ ''>''"

definition close_tag :: "string \<Rightarrow> string" where
  "close_tag tag = ''</'' @ tag @ ''>''"

definition match_section :: "string \<Rightarrow> string \<Rightarrow> string option" where
  "match_section tag s =
     (case index_of (open_tag tag) s of
        None \<Rightarrow> None
      | Some i \<Rightarrow>
          let rest = drop (i + length (open_tag tag)) s
          in (case index_of (close_tag tag) rest of
                None \<Rightarrow> None
              | Some j \<Rightarrow> Some (take j rest)))"

text \<open>\<open>s.replace(/<tag>[\s\S]*?<\/tag>/g, "")\<close>: every tagged region is removed, left to right.\<close>

function remove_sections :: "string \<Rightarrow> string \<Rightarrow> string" where
  "remove_sections tag s =
     (case index_of (open_tag tag) s of
        None \<Rightarrow> s
      | Some i \<Rightarrow>
          (case index_of (close_tag tag) (drop (i + length (open_tag tag)) s) of
             None \<Rightarrow> s
           | Some j \<Rightarrow>
               take i s @ remove_sections tag
                 (drop (j + length (close_tag tag)) (drop (i + length (open_tag tag)) s))))"
  by pat_completeness auto
termination
proof (relation "measure (\<lambda>(tag, s). length s)")
  fix tag s :: string and i j :: nat
  assume "index_of (open_tag tag) s = Some i"
  then have "s \<noteq> []" by (auto simp: open_tag_def)
  then show "((tag, drop (j + length (close_tag tag)) (drop (i + length (open_tag tag)) s)), (tag, s))
      \<in> measure (\<lambda>(tag, s). length s)"
    by (simp add: open_tag_def)
qed simp

text \<open>\<open>s.split(c)\<close> for a separator of one character, and \<open>parts.join(sep)\<close>.\<close>

fun split_on :: "char \<Rightarrow> string \<Rightarrow> string list" where
  "split_on c [] = [[]]"
| "split_on c (x # xs) =
     (if x = c then [] # split_on c xs
      else (case split_on c xs of [] \<Rightarrow> [[x]] | w # ws \<Rightarrow> (x # w) # ws))"

fun js_join :: "string \<Rightarrow> string list \<Rightarrow> string" where
  "js_join sep [] = []"
| "js_join sep [x] = x"
| "js_join sep (x # y # ys) = x @ sep @ js_join sep (y # ys)"

record ParsedEntity =
  pe_name :: string
  pe_type :: string
  pe_summary :: string

record ParsedRelationship =
  pr_source :: string
  pr_relation :: string
  pr_target :: string
  pr_date :: "string option"

record ParsedExtraction =
  memoriesText :: string
  p_entities :: "ParsedEntity list"
  p_relationships :: "ParsedRelationship list"
  eventDates :: "(nat \<times> string) list"

text \<open>The body of the loop over the lines of the \<open>entities\<close> section.\<close>

definition parse_entity_line :: "string \<Rightarrow> ParsedEntity option" where
  "parse_entity_line line =
     (if trim line = [] \<or> \<not> js_includes line ''|'' then None
      else
        let parts = map trim (split_on CHR ''|'' line)
        in if length parts \<ge> 3 \<and> parts ! 0 \<noteq> [] \<and> parts ! 1 \<noteq> [] \<and> parts ! 2 \<noteq> []
           then Some \<lparr>pe_name = parts ! 0, pe_type = parts ! 1,
                       pe_summary = js_join ''|'' (drop 2 parts)\<rparr>
           else None)"

text \<open>The body of the loop over the lines of the \<open>relationships\<close> section.\<close>

definition parse_relationship_line :: "string \<Rightarrow> ParsedRelationship option" where
  "parse_relationship_line line =
     (if trim line = [] \<or> \<not> js_includes line ''|'' then None
      else
        let parts = map trim (split_on CHR ''|'' line)
        in if length parts \<ge> 3 \<and> parts ! 0 \<noteq> [] \<and> parts ! 1 \<noteq> [] \<and> parts ! 2 \<noteq> []
           then Some \<lparr>pr_source = parts ! 0, pr_relation = parts ! 1, pr_target = parts ! 2,
                       pr_date = (if length parts > 3 \<and> parts ! 3 \<noteq> [] then Some (parts ! 3)
                                  else None)\<rparr>
           else None)"

definition is_digit :: "char \<Rightarrow> bool" where
  "is_digit c = (48 \<le> (of_char c :: nat) \<and> (of_char c :: nat) \<le> 57)"

text \<open>\<open>line.match(/^\[(\d{4}-\d{2}-\d{2})\]/)\<close>, first capture group.\<close>

definition event_date :: "string \<Rightarrow> string option" where
  "event_date line =
     (if length line \<ge> 12 \<and> line ! 0 = CHR ''['' \<and> list_all is_digit (take 4 (drop 1 line))
         \<and> line ! 5 = CHR ''-'' \<and> list_all is_digit (take 2 (drop 6 line))
         \<and> line ! 8 = CHR ''-'' \<and> list_all is_digit (take 2 (drop 9 line))
         \<and> line ! 11 = CHR '']''
      then Some (take 10 (drop 1 line)) else None)"

definition parseExtractionOutput :: "string \<Rightarrow> ParsedExtraction" where
  "parseExtractionOutput rawText =
     (let memText =
            (case match_section ''memories'' rawText of
               Some m \<Rightarrow> trim m
             | None \<Rightarrow> trim (remove_sections ''relationships'' (remove_sections ''entities'' rawText)));
          ents =
            (case match_section ''entities'' rawText of
               Some sec \<Rightarrow> List.map_filter parse_entity_line (split_on CHR 0x0A (trim sec))
             | None \<Rightarrow> []);
          rels =
            (case match_section ''relationships'' rawText of
               Some sec \<Rightarrow> List.map_filter parse_relationship_line (split_on CHR 0x0A (trim sec))
             | None \<Rightarrow> []);
          memoryLines = filter (\<lambda>l. trim l \<noteq> []) (split_on CHR 0x0A memText);
          dates = List.map_filter (\<lambda>(i, l). map_option (\<lambda>d. (i, d)) (event_date l))
                    (enumerate 0 memoryLines)
      in \<lparr>memoriesText = memText, p_entities = ents, p_relationships = rels, eventDates = dates\<rparr>)"

text \<open>
  The acceptance criterion in the words of the specification: the line contains a pipe
  and its first three pipe-separated fields are non-empty after trimming.
\<close>

definition spec_accepts :: "string \<Rightarrow> bool" where
  "spec_accepts line =
     (CHR ''|'' \<in> set line
      \<and> length (split_on CHR ''|'' line) \<ge> 3
      \<and> trim (split_on CHR ''|'' line ! 0) \<noteq> []
      \<and> trim (split_on CHR ''|'' line ! 1) \<noteq> []
      \<and> trim (split_on CHR ''|'' line ! 2) \<noteq> [])"

section \<open>Regular expressions of the query classifier\<close>

text \<open>
  The fragment of JavaScript regular expressions that the classifier uses: literal
  text, \<open>.+\<close>, \<open>\w+\<close>, the word boundary \<open>\b\<close>, sequence and alternation. \<open>rx_ends r s i\<close>
  lists the positions at which a match of \<open>r\<close> that starts at position \<open>i\<close> of \<open>s\<close> can end;
  \<open>regex_test\<close> is \<open>RegExp.prototype.test\<close>: some match starts somewhere.
\<close>

datatype rx = Lit string | AnyPlus | WordPlus | Bnd | Seq rx rx | Alt rx rx

definition is_word :: "char \<Rightarrow> bool" where
  "is_word c =
     (let n = (of_char c :: nat)
      in (48 \<le> n \<and> n \<le> 57) \<or> (65 \<le> n \<and> n \<le> 90) \<or> (97 \<le> n \<and> n \<le> 122) \<or> n = 95)"

definition is_line_terminator :: "char \<Rightarrow> bool" where
  "is_line_terminator c = (c = CHR 0x0A \<or> c = CHR 0x0D)"

definition word_boundary :: "string \<Rightarrow> nat \<Rightarrow> bool" where
  "word_boundary s i =
     ((0 < i \<and> i \<le> length s \<and> is_word (s ! (i - 1))) \<noteq> (i < length s \<and> is_word (s ! i)))"

definition plus_ends :: "(char \<Rightarrow> bool) \<Rightarrow> string \<Rightarrow> nat \<Rightarrow> nat list" where
  "plus_ends P s i = map (\<lambda>k. i + k) [1 ..< Suc (length (takeWhile P (drop i s)))]"

fun rx_ends :: "rx \<Rightarrow> string \<Rightarrow> nat \<Rightarrow> nat list" where
  "rx_ends (Lit l) s i = (if match_at s l i then [i + length l] else [])"
| "rx_ends AnyPlus s i = plus_ends (\<lambda>c. \<not> is_line_terminator c) s i"
| "rx_ends WordPlus s i = plus_ends is_word s i"
| "rx_ends Bnd s i = (if word_boundary s i then [i] else [])"
| "rx_ends (Seq a b) s i = concat (map (rx_ends b s) (rx_ends a s i))"
| "rx_ends (Alt a b) s i = rx_ends a s i @ rx_ends b s i"

definition regex_test :: "rx \<Rightarrow> string \<Rightarrow> bool" where
  "regex_test r s = list_ex (\<lambda>i. rx_ends r s i \<noteq> []) [0 ..< Suc (length s)]"

fun seqs :: "rx \<Rightarrow> rx list \<Rightarrow> rx" where
  "seqs r [] = r"
| "seqs r (x # xs) = Seq r (seqs x xs)"

fun alts :: "rx \<Rightarrow> rx list \<Rightarrow> rx" where
  "alts r [] = r"
| "alts r (x # xs) = Alt r (alts x xs)"

subsection \<open>The classifier as the code has it\<close>

definition temporal_rx :: rx where
  "temporal_rx = seqs Bnd
     [alts (Lit ''when'')
        [Seq (Lit ''what '')
           (alts (Lit ''date'') [Lit ''time'', Lit ''day'', Lit ''month'', Lit ''year'']),
         Lit ''how long ago'', Lit ''how recently'', Lit ''last time'', Lit ''first time'',
         Lit ''before'', Lit ''after''],
      Bnd]"

definition knowledge_update_rx :: rx where
  "knowledge_update_rx = seqs Bnd
     [alts (Lit ''change'')
        [Lit ''update'', Lit ''move'', Lit ''switch'', Lit ''new'', Lit ''current'', Lit ''now'',
         Lit ''still'', Lit ''anymore'', Lit ''used to'', Lit ''latest''],
      Bnd]"

definition multi_hop_rx1 :: rx where
  "multi_hop_rx1 = seqs Bnd
     [Lit ''what '', AnyPlus, Lit '' '', alts (Lit ''of'') [Lit ''for''], Lit '' '', AnyPlus,
      Lit '' '', alts (Lit ''the'') [Lit ''my'', Lit ''a''], Lit '' '', AnyPlus, Bnd]"

definition multi_hop_rx2 :: rx where
  "multi_hop_rx2 = seqs Bnd
     [WordPlus, Lit [CHR 0x27, CHR ''s'', CHR '' ''], WordPlus, Lit [CHR 0x27, CHR ''s''], Bnd]"

definition preference_rx :: rx where
  "preference_rx = seqs Bnd
     [alts (Lit ''favorite'')
        [Lit ''prefer'', Lit ''like'', Lit ''enjoy'', Lit ''love'', Lit ''hate'', Lit ''dislike'',
         Lit ''opinion''],
      Bnd]"

definition assistant_recall_rx :: rx where
  "assistant_recall_rx = seqs Bnd
     [alts (Seq (Lit ''you '')
              (alts (Lit ''said'')
                 [Lit ''told'', Lit ''recommended'', Lit ''suggested'', Lit ''mentioned'']))
        [Lit ''did you'',
         Seq (Lit ''your '')
           (alts (Lit ''advice'') [Lit ''recommendation'', Lit ''suggestion''])],
      Bnd]"

definition factual_rx :: rx where
  "factual_rx = seqs Bnd
     [alts (Lit ''who'')
        [Lit ''what'', Lit ''where'', Lit ''which'', Lit ''name'', Lit ''tell me about''],
      Bnd]"

definition detectQueryType :: "string \<Rightarrow> string" where
  "detectQueryType query =
     (let q = toLowerCase query in
      if regex_test temporal_rx q then ''temporal''
      else if regex_test knowledge_update_rx q then ''knowledge-update''
      else if regex_test multi_hop_rx1 q \<or> regex_test multi_hop_rx2 q then ''multi-hop''
      else if regex_test preference_rx q then ''preference''
      else if regex_test assistant_recall_rx q then ''assistant-recall''
      else if regex_test factual_rx q then ''factual''
      else ''general'')"

subsection \<open>The classifier as the specification words it\<close>

text \<open>
  The glossary of the specification: the classes in their priority order, each with its
  regular expressions, transcribed from the specification's text.
\<close>

definition glossary :: "(string \<times> rx list) list" where
  "glossary =
     [(''temporal'',
       [seqs Bnd
          [alts (Lit ''when'')
             [Seq (Lit ''what '')
                (alts (Lit ''date'') [Lit ''time'', Lit ''day'', Lit ''month'', Lit ''year'']),
              Lit ''how long ago'', Lit ''how recently'', Lit ''last time'', Lit ''first time'',
              Lit ''before'', Lit ''after''],
           Bnd]]),
      (''knowledge-update'',
       [seqs Bnd
          [alts (Lit ''change'')
             [Lit ''update'', Lit ''move'', Lit ''switch'', Lit ''new'', Lit ''current'',
              Lit ''now'', Lit ''still'', Lit ''anymore'', Lit ''used to'', Lit ''latest''],
           Bnd]]),
      (''multi-hop'',
       [seqs Bnd
          [Lit ''what '', AnyPlus, Lit '' '', alts (Lit ''of'') [Lit ''for''], Lit '' '', AnyPlus,
           Lit '' '', alts (Lit ''the'') [Lit ''my'', Lit ''a''], Lit '' '', AnyPlus, Bnd],
        seqs Bnd
          [WordPlus, Lit [CHR 0x27, CHR ''s'', CHR '' ''], WordPlus, Lit [CHR 0x27, CHR ''s''],
           Bnd]]),
      (''preference'',
       [seqs Bnd
          [alts (Lit ''favorite'')
             [Lit ''prefer'', Lit ''like'', Lit ''enjoy'', Lit ''love'', Lit ''hate'',
              Lit ''dislike'', Lit ''opinion''],
           Bnd]]),
      (''assistant-recall'',
       [seqs Bnd
          [alts (Seq (Lit ''you '')
                   (alts (Lit ''said'')
                      [Lit ''told'', Lit ''recommended'', Lit ''suggested'', Lit ''mentioned'']))
             [Lit ''did you'',
              Seq (Lit ''your '')
                (alts (Lit ''advice'') [Lit ''recommendation'', Lit ''suggestion''])],
           Bnd]]),
      (''factual'',
       [seqs Bnd
          [alts (Lit ''who'')
             [Lit ''what'', Lit ''where'', Lit ''which'', Lit ''name'', Lit ''tell me about''],
           Bnd]])]"

text \<open>
  Case-insensitive matching: the patterns are in lower case, and the query is matched
  in lower case.
\<close>

definition matches_ci :: "rx \<Rightarrow> string \<Rightarrow> bool" where
  "matches_ci r query = regex_test r (toLowerCase query)"

text \<open>The first class of the glossary one of whose patterns matches; \<open>general\<close> when none does.\<close>

definition spec_classify :: "string \<Rightarrow> string" where
  "spec_classify query =
     (case find (\<lambda>(cls, rs). list_ex (\<lambda>r. matches_ci r query) rs) glossary of
        Some (cls, rs) \<Rightarrow> cls
      | None \<Rightarrow> ''general'')"

section \<open>The reranker driver\<close>

record SearchResult =
  sr_content :: string
  sr_score :: real
  sr_vectorScore :: real
  sr_bm25Score :: real
  sr_rerankScore :: "real option"
  sr_sessionId :: string
  sr_chunkIndex :: int
  sr_date :: "string option"
  sr_eventDate :: "string option"

text \<open>
  One call of the reranker model: the call throws, or it returns a text. What
  \<open>JSON.parse\<close> makes of a text is a parameter of the model: \<open>None\<close> when parsing (or
  reading the parsed value as a list of index and score pairs) throws.
\<close>

datatype llm_reply = Throws | Text string

record RerankScore =
  rs_index :: int
  rs_score :: real

type_synonym json_parse = "string \<Rightarrow> RerankScore list option"

text \<open>\<open>text.match(/\[[\s\S]*\]/)\<close>: from the first opening bracket to the last closing one.\<close>

definition json_match :: "string \<Rightarrow> string option" where
  "json_match text =
     (case index_of ''['' text of
        None \<Rightarrow> None
      | Some i \<Rightarrow>
          (case index_of '']'' (rev (drop (Suc i) text)) of
             None \<Rightarrow> None
           | Some j \<Rightarrow> Some (take (length text - i - j) (drop i text))))"

text \<open>\<open>new Map\<close> filled by \<open>scoreMap.set(s.index, s.score)\<close>, then \<open>scoreMap.get(i) ?? 0\<close>.\<close>

definition score_for :: "RerankScore list \<Rightarrow> nat \<Rightarrow> real" where
  "score_for scores i =
     (case map_of (rev (map (\<lambda>s. (rs_index s, rs_score s)) scores)) (int i) of
        Some v \<Rightarrow> v | None \<Rightarrow> 0)"

text \<open>\<open>results.slice(0, topK)\<close> for an integer \<open>topK\<close>.\<close>

definition slice_top :: "'a list \<Rightarrow> int \<Rightarrow> 'a list" where
  "slice_top results topK =
     (if topK < 0 then take (nat (int (length results) + topK)) results
      else take (nat topK) results)"

definition reranked :: "SearchResult list \<Rightarrow> RerankScore list \<Rightarrow> int \<Rightarrow> SearchResult list" where
  "reranked results scores topK =
     map (\<lambda>(r, rr). r\<lparr>sr_rerankScore := Some rr, sr_score := rr / 10\<rparr>)
       (slice_top
          (sort_key (\<lambda>(r, rr). - rr)
             (map (\<lambda>(i, r). (r, score_for scores i)) (enumerate 0 results)))
          topK)"

text \<open>
  The retry loop \<open>for (attempt = 0; attempt < 3; attempt++)\<close>, over the replies the model
  gives to the successive calls. \<open>llm attempt\<close> is the reply to call number \<open>attempt\<close>. The
  waiting between attempts is not modelled.
\<close>

function rerank_loop ::
  "json_parse \<Rightarrow> (nat \<Rightarrow> llm_reply) \<Rightarrow> SearchResult list \<Rightarrow> int \<Rightarrow> nat \<Rightarrow> SearchResult list" where
  "rerank_loop parse llm results topK attempt =
     (if attempt < 3 then
        (case llm attempt of
           Throws \<Rightarrow>
             if attempt < 2 then rerank_loop parse llm results topK (Suc attempt)
             else slice_top results topK
         | Text text \<Rightarrow>
             (case json_match text of
                None \<Rightarrow>
                  if attempt < 2 then rerank_loop parse llm results topK (Suc attempt)
                  else slice_top results topK
              | Some js \<Rightarrow>
                  (case parse js of
                     None \<Rightarrow>
                       if attempt < 2 then rerank_loop parse llm results topK (Suc attempt)
                       else slice_top results topK
                   | Some scores \<Rightarrow> reranked results scores topK)))
      else slice_top results topK)"
  by pat_completeness auto
termination
  by (relation "measure (\<lambda>(parse, llm, results, topK, attempt). 3 - attempt)") auto

declare rerank_loop.simps [simp del]

definition rerankResults ::
  "json_parse \<Rightarrow> (nat \<Rightarrow> llm_reply) \<Rightarrow> string \<Rightarrow> SearchResult list \<Rightarrow> int \<Rightarrow> SearchResult list" where
  "rerankResults parse llm query results topK =
     (if int (length results) \<le> topK then results
      else rerank_loop parse llm results topK 0)"

text \<open>
  A reply that fails: the call throws, the text holds no bracketed block, or the block
  does not parse.
\<close>

definition reply_fails :: "json_parse \<Rightarrow> llm_reply \<Rightarrow> bool" where
  "reply_fails parse reply =
     (case reply of
        Throws \<Rightarrow> True
      | Text text \<Rightarrow>
          (case json_match text of None \<Rightarrow> True | Some js \<Rightarrow> parse js = None))"

section \<open>The relational store: hybrid search\<close>

text \<open>
  A row of the table \<open>rag_chunks\<close> (the opaque \<open>metadata\<close> column is left out). Scores are
  real numbers: the double-precision arithmetic of the database and of JavaScript is
  idealised, and a score that is not a number (the cosine of a zero vector) is excluded
  by hypothesis where it matters.
\<close>

record ChunkRow =
  c_id :: string
  c_container_tag :: string
  c_content :: string
  c_session_id :: string
  c_chunk_index :: int
  c_embedding :: "real list"
  c_date :: "string option"
  c_event_date :: "string option"

text \<open>
  The full-text search of the database is a parameter: whether a content matches the
  query (\<open>content_tsv @@ plainto_tsquery('english', query)\<close>) and its rank
  (\<open>ts_rank(content_tsv, plainto_tsquery('english', query))\<close>).
\<close>

record FullText =
  fts_matches :: "string \<Rightarrow> string \<Rightarrow> bool"
  fts_rank :: "string \<Rightarrow> string \<Rightarrow> real"

datatype pg_error = NegativeLimit | DimensionMismatch

definition VECTOR_WEIGHT :: real where "VECTOR_WEIGHT = 7 / 10"
definition BM25_WEIGHT :: real where "BM25_WEIGHT = 3 / 10"

definition dot :: "real list \<Rightarrow> real list \<Rightarrow> real" where
  "dot a b = sum_list (map (\<lambda>(x, y). x * y) (zip a b))"

text \<open>The operator \<open><=>\<close> of the vector extension: the cosine distance.\<close>

definition cosine_distance :: "real list \<Rightarrow> real list \<Rightarrow> real" where
  "cosine_distance a b = 1 - dot a b / sqrt (dot a a * dot b b)"

text \<open>
  The rows the SQL statement returns, each with its \<open>vector_score\<close> and its \<open>bm25_score\<close>:
  the \<open>limit\<close> rows of the container nearest to the query embedding, left-joined with the
  full-text matches.
\<close>

definition sql_rows ::
  "FullText \<Rightarrow> ChunkRow list \<Rightarrow> string \<Rightarrow> real list \<Rightarrow> string \<Rightarrow> int
    \<Rightarrow> (ChunkRow \<times> real \<times> real) list" where
  "sql_rows fts table containerTag queryEmbedding query limit =
     map (\<lambda>r. (r, 1 - cosine_distance (c_embedding r) queryEmbedding,
                if fts_matches fts (c_content r) query then fts_rank fts (c_content r) query
                else 0))
       (take (nat limit)
          (sort_key (\<lambda>r. cosine_distance (c_embedding r) queryEmbedding)
             (filter (\<lambda>r. c_container_tag r = containerTag) table)))"

text \<open>\<open>let maxBm25 = 0; for (const row of rows) { if (s > maxBm25) maxBm25 = s }\<close>\<close>

definition max_bm25 :: "(ChunkRow \<times> real \<times> real) list \<Rightarrow> real" where
  "max_bm25 rows = fold (\<lambda>(r, vs, s) m. if s > m then s else m) rows 0"

definition or_undefined :: "string option \<Rightarrow> string option" where
  "or_undefined v = (case v of Some s \<Rightarrow> if s = [] then None else Some s | None \<Rightarrow> None)"

definition to_search_result :: "real \<Rightarrow> ChunkRow \<times> real \<times> real \<Rightarrow> SearchResult" where
  "to_search_result maxBm25 row =
     (case row of (r, vectorScore, rawBm25) \<Rightarrow>
        let normalizedBm25 = (if maxBm25 > 0 then rawBm25 / maxBm25 else 0)
        in \<lparr>sr_content = c_content r,
            sr_score = VECTOR_WEIGHT * vectorScore + BM25_WEIGHT * normalizedBm25,
            sr_vectorScore = vectorScore,
            sr_bm25Score = normalizedBm25,
            sr_rerankScore = None,
            sr_sessionId = c_session_id r,
            sr_chunkIndex = c_chunk_index r,
            sr_date = or_undefined (c_date r),
            sr_eventDate = or_undefined (c_event_date r)\<rparr>)"

text \<open>
  \<open>PgStore.search\<close>. The database raises an error for a negative \<open>LIMIT\<close> and when the
  distance operator meets vectors of different dimensions.
\<close>

definition pg_search ::
  "FullText \<Rightarrow> ChunkRow list \<Rightarrow> string \<Rightarrow> real list \<Rightarrow> string \<Rightarrow> int
    \<Rightarrow> pg_error + SearchResult list" where
  "pg_search fts table containerTag queryEmbedding query limit =
     (if limit < 0 then Inl NegativeLimit
      else if \<exists>r \<in> set table. c_container_tag r = containerTag
                \<and> length (c_embedding r) \<noteq> length queryEmbedding
      then Inl DimensionMismatch
      else
        let rows = sql_rows fts table containerTag queryEmbedding query limit
        in if rows = [] then Inr []
           else Inr (sort_key (\<lambda>r. - sr_score r) (map (to_search_result (max_bm25 rows)) rows)))"

section \<open>The in-memory search engine\<close>

text \<open>
  \<open>HybridSearchEngine\<close> (\<open>./search\<close>) is used by the provider but its source is not part of
  the repository files at hand. Its state is a \<open>Map\<close> from container tag to the chunks of
  the container; a chunk has the fields of a row of \<open>rag_chunks\<close>.
\<close>

type_synonym HybridSearchEngine = "(string \<times> ChunkRow list) list"

primrec map_delete :: "'k \<Rightarrow> ('k \<times> 'v) list \<Rightarrow> ('k \<times> 'v) list" where
  "map_delete k [] = []"
| "map_delete k (p # ps) = (if fst p = k then map_delete k ps else p # map_delete k ps)"

text \<open>
  Modelled from the spec: \<open>HybridSearchEngine.addChunks\<close> is missing from the sources.
  The specification: upsert by \<open>id\<close>; on repeated ingest of the same \<open>id\<close>, old content and
  embedding are replaced.
\<close>

definition upsert_chunk :: "ChunkRow \<Rightarrow> ChunkRow list \<Rightarrow> ChunkRow list" where
  "upsert_chunk c cs =
     (if \<exists>x \<in> set cs. c_id x = c_id c then map (\<lambda>x. if c_id x = c_id c then c else x) cs
      else cs @ [c])"

definition engine_addChunks :: "string \<Rightarrow> ChunkRow list \<Rightarrow> HybridSearchEngine \<Rightarrow> HybridSearchEngine" where
  "engine_addChunks tag chunks eng =
     map_set tag (fold upsert_chunk chunks (case map_get eng tag of None \<Rightarrow> [] | Some cs \<Rightarrow> cs)) eng"

text \<open>
  Modelled from the spec: \<open>HybridSearchEngine.hasData\<close>, \<open>getChunkCount\<close>, \<open>clear\<close>, \<open>save\<close>
  and \<open>load\<close> are missing from the sources. The specification: they complete the
  surface; \<open>clear(tag)\<close> deletes the chunks of the tag; snapshot save and load round-trip
  all chunk fields. The provider treats the value of \<open>save\<close> as absent or as an object
  with the field \<open>chunks\<close>.
\<close>

definition engine_getChunkCount :: "HybridSearchEngine \<Rightarrow> string \<Rightarrow> nat" where
  "engine_getChunkCount eng tag = (case map_get eng tag of None \<Rightarrow> 0 | Some cs \<Rightarrow> length cs)"

definition engine_hasData :: "HybridSearchEngine \<Rightarrow> string \<Rightarrow> bool" where
  "engine_hasData eng tag = (engine_getChunkCount eng tag > 0)"

definition engine_clear :: "string \<Rightarrow> HybridSearchEngine \<Rightarrow> HybridSearchEngine" where
  "engine_clear tag eng = map_delete tag eng"

definition engine_save :: "HybridSearchEngine \<Rightarrow> string \<Rightarrow> ChunkRow list option" where
  "engine_save eng tag = map_get eng tag"

definition engine_load :: "string \<Rightarrow> ChunkRow list \<Rightarrow> HybridSearchEngine \<Rightarrow> HybridSearchEngine" where
  "engine_load tag chunks eng = map_set tag chunks eng"

text \<open>
  Modelled from the spec: \<open>HybridSearchEngine.search\<close> is missing from the sources. The
  specification: fetch the top \<open>limit\<close> chunks by cosine similarity; fetch the matches of
  the lexical query among them (score 0 for the others); divide the lexical scores by
  their maximum (0 if all are zero); fuse \<open>score = 0.7 * vectorScore + 0.3 *
  normalizedLexicalScore\<close>; sort by descending score. The lexical index is a parameter.
\<close>

definition engine_search ::
  "FullText \<Rightarrow> HybridSearchEngine \<Rightarrow> string \<Rightarrow> real list \<Rightarrow> string \<Rightarrow> int \<Rightarrow> SearchResult list" where
  "engine_search fts eng tag queryEmbedding queryText limit =
     (let chunks = (case map_get eng tag of None \<Rightarrow> [] | Some cs \<Rightarrow> cs);
          rows = sql_rows fts chunks tag queryEmbedding queryText limit
      in sort_key (\<lambda>r. - sr_score r) (map (to_search_result (max_bm25 rows)) rows))"

section \<open>The provider\<close>

record Session =
  s_sessionId :: string
  s_date :: "string option"

text \<open>
  The collaborators outside the repository: the extraction model (\<open>None\<close>: the call failed
  after its retries), the embedding service (\<open>None\<close>: three attempts failed), the lexical
  index of the search engine, the reranker model and \<open>JSON.parse\<close>.
\<close>

record Collaborators =
  co_extractMemories :: "Session \<Rightarrow> string option"
  co_embedMany :: "string list \<Rightarrow> real list list option"
  co_embed :: "string \<Rightarrow> real list option"
  co_lexical :: FullText
  co_reranker :: "nat \<Rightarrow> llm_reply"
  co_json_parse :: json_parse

text \<open>
  The files of the cache directory, by path. A file holds what \<open>JSON.stringify\<close> wrote
  and \<open>JSON.parse\<close> reads back: the chunks of the search index, or the serialized graph.
\<close>

datatype cache_file = SearchJson "ChunkRow list" | GraphJson SerializedGraph

record RAGProvider =
  openai :: bool
  searchEngine :: HybridSearchEngine
  graphs :: "(string \<times> EntityGraph) list"
  extractionCache :: "(string \<times> string) list"
  files :: "(string \<times> cache_file) list"

datatype provider_error = NotInitialized | ExtractionFailed | EmbeddingFailed

definition new_RAGProvider :: RAGProvider where
  "new_RAGProvider = \<lparr>openai = False, searchEngine = [], graphs = [], extractionCache = [],
     files = []\<rparr>"

definition CACHE_DIR :: string where "CACHE_DIR = ''./data/cache/rag''"
definition RERANK_OVERFETCH :: int where "RERANK_OVERFETCH = 40"
definition EMBEDDING_BATCH_SIZE :: nat where "EMBEDDING_BATCH_SIZE = 100"

definition initialize :: "string \<Rightarrow> RAGProvider \<Rightarrow> provider_error + RAGProvider" where
  "initialize apiKey p = (if apiKey = [] then Inl NotInitialized else Inr (p\<lparr>openai := True\<rparr>))"

definition getGraph :: "string \<Rightarrow> RAGProvider \<Rightarrow> EntityGraph \<times> RAGProvider" where
  "getGraph containerTag p =
     (case map_get (graphs p) containerTag of
        Some g \<Rightarrow> (g, p)
      | None \<Rightarrow> (new_EntityGraph, p\<lparr>graphs := map_set containerTag new_EntityGraph (graphs p)\<rparr>))"

definition getCacheDir :: "string \<Rightarrow> string" where
  "getCacheDir containerTag = CACHE_DIR @ ''/'' @ containerTag"

definition saveToCache :: "string \<Rightarrow> RAGProvider \<Rightarrow> RAGProvider" where
  "saveToCache containerTag p =
     (let dir = getCacheDir containerTag;
          p1 = (case engine_save (searchEngine p) containerTag of
                  Some chunks \<Rightarrow> p\<lparr>files := map_set (dir @ ''/search.json'') (SearchJson chunks) (files p)\<rparr>
                | None \<Rightarrow> p)
      in (case map_get (graphs p1) containerTag of
            Some g \<Rightarrow>
              if nodeCount g > 0
              then p1\<lparr>files := map_set (dir @ ''/graph.json'') (GraphJson (save g)) (files p1)\<rparr>
              else p1
          | None \<Rightarrow> p1))"

text \<open>
  \<open>loadFromCache\<close>: a file that does not hold what is expected makes the \<open>try\<close> block throw,
  and the method returns \<open>false\<close> with what it had loaded so far.
\<close>

definition loadFromCache :: "string \<Rightarrow> RAGProvider \<Rightarrow> bool \<times> RAGProvider" where
  "loadFromCache containerTag p =
     (let dir = getCacheDir containerTag in
      case map_get (files p) (dir @ ''/search.json'') of
        None \<Rightarrow> (False, p)
      | Some (GraphJson d) \<Rightarrow> (False, p)
      | Some (SearchJson chunks) \<Rightarrow>
          let p1 = p\<lparr>searchEngine := engine_load containerTag chunks (searchEngine p)\<rparr> in
          (case map_get (files p1) (dir @ ''/graph.json'') of
             None \<Rightarrow> (True, p1)
           | Some (SearchJson cs) \<Rightarrow> (False, p1)
           | Some (GraphJson graphData) \<Rightarrow>
               (case getGraph containerTag p1 of
                  (g, p2) \<Rightarrow>
                    (True, p2\<lparr>graphs := map_set containerTag (load graphData g) (graphs p2)\<rparr>))))"

definition clear :: "string \<Rightarrow> RAGProvider \<Rightarrow> RAGProvider" where
  "clear containerTag p =
     p\<lparr>searchEngine := engine_clear containerTag (searchEngine p),
       graphs := map_delete containerTag (graphs p)\<rparr>"

text \<open>
  \<open>EntityGraph.findEntitiesInQuery\<close>, used by the provider's search: the names indexed under
  a key of more than two characters that occurs in the lower-cased query between word
  boundaries.
\<close>

definition findEntitiesInQuery :: "EntityGraph \<Rightarrow> string \<Rightarrow> string list" where
  "findEntitiesInQuery g query =
     (let queryLower = toLowerCase query in
      fold (\<lambda>(key, canonicals) matched.
              if length key \<le> 2 then matched
              else if regex_test (seqs Bnd [Lit key, Bnd]) queryLower
                   then fold set_add canonicals matched
                   else matched)
        (nameIndex g) [])"

text \<open>
  What the provider's search returns: the chunk results, then one pseudo-result per
  entity and per relationship of the graph context (their scores are 0).
\<close>

datatype provider_result =
  ChunkResult SearchResult
| EntityPseudoResult EntityResult
| RelationshipPseudoResult RelationshipResult

definition graph_results :: "RAGProvider \<Rightarrow> string \<Rightarrow> string \<Rightarrow> provider_result list" where
  "graph_results p containerTag query =
     (case map_get (graphs p) containerTag of
        None \<Rightarrow> []
      | Some g \<Rightarrow>
          if nodeCount g > 0 then
            (let queryEntities = findEntitiesInQuery g query in
             if queryEntities \<noteq> [] then
               (let graphContext = getContext g queryEntities 2
                in map EntityPseudoResult (entities graphContext)
                   @ map RelationshipPseudoResult (relationships graphContext))
             else [])
          else [])"

text \<open>\<open>RAGProvider.search\<close>; \<open>limitOpt\<close> is \<open>options.limit\<close>.\<close>

definition search ::
  "Collaborators \<Rightarrow> string \<Rightarrow> string \<Rightarrow> int option \<Rightarrow> RAGProvider
    \<Rightarrow> (provider_error + provider_result list) \<times> RAGProvider" where
  "search co query containerTag limitOpt p =
     (if \<not> openai p then (Inl NotInitialized, p)
      else
        let p1 = (if \<not> engine_hasData (searchEngine p) containerTag
                  then snd (loadFromCache containerTag p) else p)
        in (case co_embed co query of
              None \<Rightarrow> (Inl EmbeddingFailed, p1)
            | Some queryEmbedding \<Rightarrow>
                let limit = (case limitOpt of None \<Rightarrow> 10 | Some l \<Rightarrow> if l = 0 then 10 else l);
                    overfetchLimit = max limit RERANK_OVERFETCH;
                    hybridResults = engine_search (co_lexical co) (searchEngine p1) containerTag
                                      queryEmbedding query overfetchLimit;
                    finalChunks = (if int (length hybridResults) > limit
                                   then rerankResults (co_json_parse co) (co_reranker co) query
                                          hybridResults limit
                                   else hybridResults)
                in (Inr (map ChunkResult finalChunks @ graph_results p1 containerTag query), p1)))"

subsection \<open>Ingest\<close>

text \<open>\<open>String(n)\<close> for a chunk index.\<close>

function string_of_nat :: "nat \<Rightarrow> string" where
  "string_of_nat n =
     (if n < 10 then [char_of (48 + n)]
      else string_of_nat (n div 10) @ [char_of (48 + n mod 10)])"
  by pat_completeness auto
termination
  by (relation "measure (\<lambda>n. n)") auto

declare string_of_nat.simps [simp del]

definition session_dateStr :: "Session \<Rightarrow> string" where
  "session_dateStr session =
     (let isoDate = (case s_date session of None \<Rightarrow> ''unknown''
                     | Some d \<Rightarrow> if d = [] then ''unknown'' else d)
      in if isoDate \<noteq> ''unknown''
         then (case split_on CHR ''T'' isoDate of [] \<Rightarrow> [] | x # xs \<Rightarrow> x)
         else ''unknown'')"

text \<open>
  The extractions of the sessions, through the cache of completed extractions. The
  sessions of a batch, concurrent in the code, are taken one after the other; the first
  failure ends the ingest.
\<close>

fun extract_all ::
  "Collaborators \<Rightarrow> Session list \<Rightarrow> (string \<times> string) list
    \<Rightarrow> string list option \<times> (string \<times> string) list" where
  "extract_all co [] cache = (Some [], cache)"
| "extract_all co (s # ss) cache =
     (case map_get cache (s_sessionId s) of
        Some r \<Rightarrow>
          (case extract_all co ss cache of (rs, c) \<Rightarrow> (map_option ((#) r) rs, c))
      | None \<Rightarrow>
          (case co_extractMemories co s of
             None \<Rightarrow> (None, cache)
           | Some r \<Rightarrow>
               (case extract_all co ss (map_set (s_sessionId s) r cache) of
                  (rs, c) \<Rightarrow> (map_option ((#) r) rs, c))))"

text \<open>
  One session of the loop that parses the extractions, builds the graph and prepares
  the chunk texts (text, session id, chunk index, date). \<open>None\<close>: the chunker does not
  return.
\<close>

definition process_session ::
  "Session \<Rightarrow> string \<Rightarrow> EntityGraph \<times> (string \<times> string \<times> nat \<times> string) list
    \<Rightarrow> (EntityGraph \<times> (string \<times> string \<times> nat \<times> string) list) option" where
  "process_session session rawExtraction acc =
     (case acc of (g, allChunks) \<Rightarrow>
        let dateStr = session_dateStr session;
            parsed = parseExtractionOutput rawExtraction;
            g1 = fold (\<lambda>e. addEntity (pe_name e) (pe_type e) (pe_summary e) (s_sessionId session))
                   (p_entities parsed) g;
            g2 = fold (\<lambda>r. addRelationship
                          \<lparr>e_source = pr_source r, e_target = pr_target r,
                           e_relation = pr_relation r, e_date = pr_date r,
                           e_sessionId = s_sessionId session\<rparr>)
                   (p_relationships parsed) g1;
            content = ''# Memories from '' @ dateStr @ [CHR 0x0A, CHR 0x0A] @ memoriesText parsed
        in (case chunkText content CHUNK_SIZE CHUNK_OVERLAP of
              None \<Rightarrow> None
            | Some textChunks \<Rightarrow>
                Some (g2, allChunks @ map (\<lambda>(i, t). (t, s_sessionId session, i, dateStr))
                                        (enumerate 0 textChunks))))"

fun process_sessions ::
  "(Session \<times> string) list \<Rightarrow> EntityGraph \<times> (string \<times> string \<times> nat \<times> string) list
    \<Rightarrow> (EntityGraph \<times> (string \<times> string \<times> nat \<times> string) list) option" where
  "process_sessions [] acc = Some acc"
| "process_sessions ((session, raw) # rest) acc =
     (case process_session session raw acc of
        None \<Rightarrow> None
      | Some acc' \<Rightarrow> process_sessions rest acc')"

definition embedded_chunk :: "string \<Rightarrow> (string \<times> string \<times> nat \<times> string) \<Rightarrow> real list \<Rightarrow> ChunkRow" where
  "embedded_chunk containerTag chunk emb =
     (case chunk of (text, sid, idx, dateStr) \<Rightarrow>
        \<lparr>c_id = containerTag @ ''_'' @ sid @ ''_'' @ string_of_nat idx,
         c_container_tag = containerTag, c_content = text, c_session_id = sid,
         c_chunk_index = int idx, c_embedding = emb, c_date = Some dateStr,
         c_event_date = None\<rparr>)"

text \<open>
  The embedding loop, in batches of \<open>EMBEDDING_BATCH_SIZE\<close>. The service returns one vector
  per text of the batch.
\<close>

function embed_all ::
  "(string list \<Rightarrow> real list list option) \<Rightarrow> string \<Rightarrow> (string \<times> string \<times> nat \<times> string) list
    \<Rightarrow> ChunkRow list option" where
  "embed_all embedMany containerTag allChunks =
     (if allChunks = [] then Some []
      else
        (let batch = take EMBEDDING_BATCH_SIZE allChunks in
         case embedMany (map fst batch) of
           None \<Rightarrow> None
         | Some embeddings \<Rightarrow>
             (case embed_all embedMany containerTag (drop EMBEDDING_BATCH_SIZE allChunks) of
                None \<Rightarrow> None
              | Some rest \<Rightarrow>
                  Some (map (\<lambda>(c, e). embedded_chunk containerTag c e) (zip batch embeddings)
                        @ rest))))"
  by pat_completeness auto
termination
  by (relation "measure (\<lambda>(f, t, cs). length cs)") (auto simp: EMBEDDING_BATCH_SIZE_def)

declare embed_all.simps [simp del]

text \<open>\<open>RAGProvider.ingest\<close>; \<open>None\<close>: the ingest does not return.\<close>

definition ingest ::
  "Collaborators \<Rightarrow> Session list \<Rightarrow> string \<Rightarrow> RAGProvider
    \<Rightarrow> ((provider_error + string list) \<times> RAGProvider) option" where
  "ingest co sessions containerTag p =
     (if \<not> openai p then Some (Inl NotInitialized, p)
      else
        (case getGraph containerTag p of (g0, p0) \<Rightarrow>
         case extract_all co sessions (extractionCache p0) of
           (None, cache) \<Rightarrow> Some (Inl ExtractionFailed, p0\<lparr>extractionCache := cache\<rparr>)
         | (Some extractions, cache) \<Rightarrow>
             (case process_sessions (zip sessions extractions) (g0, []) of
                None \<Rightarrow> None
              | Some (g, allChunks) \<Rightarrow>
                  let p1 = p0\<lparr>extractionCache := cache,
                             graphs := map_set containerTag g (graphs p0)\<rparr>
                  in if allChunks = [] then Some (Inr [], p1)
                     else
                       (case embed_all (co_embedMany co) containerTag allChunks of
                          None \<Rightarrow> Some (Inl EmbeddingFailed, p1)
                        | Some embeddedChunks \<Rightarrow>
                            Some (Inr (map c_id embeddedChunks),
                                  saveToCache containerTag
                                    (p1\<lparr>searchEngine := engine_addChunks containerTag
                                          embeddedChunks (searchEngine p1)\<rparr>))))))"

section \<open>Inputs used in the evaluations\<close>

text \<open>A text whose only break point is a space at index 1.\<close>

definition loopText :: string where
  "loopText = ''a '' @ replicate 2000 CHR ''b''"

text \<open>An extraction output with accepted and rejected lines.\<close>

definition sampleExtraction :: string where
  "sampleExtraction =
     ''<memories>[2024-05-09] Al got a Sony A7.\<newline>x</memories><entities>\<newline>'' @
     ''Al | person | likes | pipes\<newline>bad|line\<newline>|a|b|c\<newline>Sony A7|object|a camera\<newline>'' @
     ''</entities>\<newline><relationships>Al|owns|Sony A7|2024-05-09\<newline>Al|likes||\<newline></relationships>''"

text \<open>Three hybrid results, and a reranker model that fails in three different ways.\<close>

definition hit :: "string \<Rightarrow> real \<Rightarrow> SearchResult" where
  "hit c sc = \<lparr>sr_content = c, sr_score = sc, sr_vectorScore = sc, sr_bm25Score = 0,
     sr_rerankScore = None, sr_sessionId = ''s1'', sr_chunkIndex = 0, sr_date = None,
     sr_eventDate = None\<rparr>"

definition failing_llm :: "nat \<Rightarrow> llm_reply" where
  "failing_llm attempt =
     (if attempt = 0 then Throws
      else if attempt = 1 then Text ''scores: [not json]''
      else Text ''I cannot rank these.'')"

text \<open>Tables and full-text searches for the evaluations of the hybrid search.\<close>

definition no_fts :: FullText where
  "no_fts = \<lparr>fts_matches = (\<lambda>c q. False), fts_rank = (\<lambda>c q. 0)\<rparr>"

definition chunk_row :: "string \<Rightarrow> string \<Rightarrow> string \<Rightarrow> real list \<Rightarrow> ChunkRow" where
  "chunk_row tag rid c e = \<lparr>c_id = rid, c_container_tag = tag, c_content = c, c_session_id = ''s1'',
     c_chunk_index = 0, c_embedding = e, c_date = None, c_event_date = None\<rparr>"

definition alice_fts :: FullText where
  "alice_fts = \<lparr>fts_matches = (\<lambda>c q. q = ''alice'' \<and> c = ''met alice''),
                 fts_rank = (\<lambda>c q. 1 / 2)\<rparr>"

definition alice_table :: "ChunkRow list" where
  "alice_table =
     [chunk_row ''t'' ''t_s1_0'' ''met alice'' [0, 1],
      chunk_row ''u'' ''u_s1_0'' ''other container'' [1, 1, 1],
      chunk_row ''t'' ''t_s1_1'' ''travel'' [1, 0]]"

text \<open>
  One session, its collaborators (every text is embedded as the vector \<open>[1]\<close>), and the
  state of the provider after the session is ingested under the tag \<open>t\<close>.
\<close>

definition demo_co :: Collaborators where
  "demo_co = \<lparr>co_extractMemories = (\<lambda>s. Some sampleExtraction),
     co_embedMany = (\<lambda>texts. Some (map (\<lambda>t. [1]) texts)),
     co_embed = (\<lambda>q. Some [1]),
     co_lexical = no_fts,
     co_reranker = failing_llm,
     co_json_parse = (\<lambda>js. None)\<rparr>"

definition demo_session :: Session where
  "demo_session = \<lparr>s_sessionId = ''s1'', s_date = Some ''2024-05-10T09:00:00''\<rparr>"

definition demo_chunk :: ChunkRow where
  "demo_chunk =
     \<lparr>c_id = ''t_s1_0'', c_container_tag = ''t'',
      c_content = ''# Memories from 2024-05-10\<newline>\<newline>[2024-05-09] Al got a Sony A7.\<newline>x'',
      c_session_id = ''s1'', c_chunk_index = 0, c_embedding = [1],
      c_date = Some ''2024-05-10'', c_event_date = None\<rparr>"

definition demo_edge :: RelationshipEdge where
  "demo_edge = \<lparr>e_source = ''Al'', e_target = ''Sony A7'', e_relation = ''owns'',
     e_date = Some ''2024-05-09'', e_sessionId = ''s1''\<rparr>"

definition demo_graph :: EntityGraph where
  "demo_graph =
     \<lparr>nodes =
        [(''Al'', \<lparr>n_name = ''Al'', n_type = ''person'', n_summary = ''likes|pipes'',
                  n_sessionIds = [''s1'']\<rparr>),
         (''Sony A7'', \<lparr>n_name = ''Sony A7'', n_type = ''object'', n_summary = ''a camera'',
                       n_sessionIds = [''s1'']\<rparr>)],
      edgeSet = [''Al|owns|Sony A7''],
      adjacency = [(''Al'', [demo_edge]), (''Sony A7'', [demo_edge])],
      nameIndex = [(''al'', [''Al'']), (''sony a7'', [''Sony A7'']), (''sony'', [''Sony A7''])]\<rparr>"

definition demo_ingested :: RAGProvider where
  "demo_ingested =
     \<lparr>openai = True,
      searchEngine = [(''t'', [demo_chunk])],
      graphs = [(''t'', demo_graph)],
      extractionCache = [(''s1'', sampleExtraction)],
      files = [(''./data/cache/rag/t/search.json'', SearchJson [demo_chunk]),
               (''./data/cache/rag/t/graph.json'', GraphJson (save demo_graph))]\<rparr>"

section \<open>Properties of the chunker\<close>

subsection \<open>Facts about the string primitives\<close>

lemma match_at_hd: "match_at text (c # p) k \<Longrightarrow> k < length text \<and> text ! k = c"
  unfolding match_at_def
  by (cases "drop k text") (auto simp: drop_eq_Nil hd_drop_conv_nth dest!: arg_cong[where f=hd])

lemma match_at_single: "match_at text [c] k \<longleftrightarrow> k < length text \<and> text ! k = c"
  unfolding match_at_def
  by (cases "drop k text") (auto simp: drop_eq_Nil hd_drop_conv_nth dest!: arg_cong[where f=hd])

lemma last_index_from_none:
  "(\<And>k. k \<le> n \<Longrightarrow> \<not> match_at text pat k) \<Longrightarrow> last_index_from text pat n = - 1"
  by (induction n) auto

lemma last_index_from_found:
  "match_at text pat j \<Longrightarrow> j \<le> n \<Longrightarrow> (\<And>k. j < k \<Longrightarrow> k \<le> n \<Longrightarrow> \<not> match_at text pat k)
    \<Longrightarrow> last_index_from text pat n = int j"
proof (induction n)
  case 0
  then show ?case by simp
next
  case (Suc n)
  show ?case
  proof (cases "j = Suc n")
    case True
    with Suc.prems show ?thesis by simp
  next
    case False
    with Suc.prems have "j \<le> n" by simp
    moreover have "\<not> match_at text pat (Suc n)" using Suc.prems False by simp
    ultimately show ?thesis using Suc by simp
  qed
qed

lemma lastIndexOf_absent: "c \<notin> set text \<Longrightarrow> lastIndexOf text (c # p) pos = - 1"
  unfolding lastIndexOf_def
  by (rule last_index_from_none) (auto dest!: match_at_hd)

lemma dropWhile_none: "\<forall>c\<in>set s. \<not> P c \<Longrightarrow> dropWhile P s = s"
  by (cases s) auto

lemma trim_no_space: "\<forall>c\<in>set s. \<not> is_space c \<Longrightarrow> trim s = s"
  by (simp add: trim_def dropWhile_none)

subsection \<open>The chunker on short input and on input without break points\<close>

lemma find_break_1602: "find_break (replicate 1602 CHR ''a'') 0 1600 = 1600"
  by (simp add: find_break_def lastIndexOf_absent)

lemma chunkText_1602:
  "chunkText (replicate 1602 CHR ''a'') CHUNK_SIZE CHUNK_OVERLAP
     = Some [replicate 1601 CHR ''a'', replicate 321 CHR ''a'']"
  apply (simp add: chunkText_def CHUNK_SIZE_def CHUNK_OVERLAP_def)
  apply (subst chunk_loop.simps)
  apply (simp add: find_break_1602)
  apply (subst chunk_loop.simps)
  apply (simp add: js_slice_def js_slice_from_def trim_no_space is_space_def)
  done

text \<open>
  Claim C3 (every chunk returned by \<open>chunkText\<close> is non-empty after trimming and at most
  \<open>CHUNK_SIZE\<close> = 1600 characters long, also for empty or whitespace-only input) does not
  hold of the code. The early return for short input skips the final filter, so the
  empty string and a whitespace-only string each produce the one-element list holding
  the empty chunk; and the hard cut slices \<open>start .. breakPoint + 1\<close> with
  \<open>breakPoint = start + chunkSize\<close>, so 1602 characters without any break point give
  a first chunk of 1601 characters.
\<close>

theorem chunkText_empty_or_oversized_chunk:
  "chunkText [] CHUNK_SIZE CHUNK_OVERLAP = Some [[]]
   \<and> chunkText ''   '' CHUNK_SIZE CHUNK_OVERLAP = Some [[]]
   \<and> map_option (map length) (chunkText (replicate 1602 CHR ''a'') CHUNK_SIZE CHUNK_OVERLAP)
       = Some [1601, 321]"
  by (simp add: chunkText_1602) (simp add: chunkText_def CHUNK_SIZE_def trim_def is_space_def)

subsection \<open>An input on which the chunker loops forever\<close>

lemma find_break_loopText: "find_break loopText 0 1600 = 1"
proof -
  have 1: "lastIndexOf loopText ''. '' 1600 = - 1"
    by (rule lastIndexOf_absent) (simp add: loopText_def)
  have 2: "lastIndexOf loopText [CHR 0x0A] 1600 = - 1"
    by (rule lastIndexOf_absent) (simp add: loopText_def)
  have 3: "lastIndexOf loopText '' '' 1600 = int 1"
    unfolding lastIndexOf_def
    by (rule last_index_from_found) (auto simp: match_at_single loopText_def nth_Cons' nth_append)
  show ?thesis by (simp add: find_break_def 1 2 3)
qed

lemma chunk_loop_loopText_diverges: "chunk_loop loopText 1600 320 0 chunks = None"
proof (cases "chunk_loop loopText 1600 320 0 chunks")
  case None
  then show ?thesis .
next
  case (Some y)
  have "\<not> (loopText = loopText \<and> (1600::int) = 1600 \<and> (320::int) = 320 \<and> (0::int) = 0)"
  proof (rule chunk_loop.raw_induct
      [where P = "\<lambda>t cs ov st chunks y. \<not> (t = loopText \<and> cs = 1600 \<and> ov = 320 \<and> st = 0)",
        OF _ Some])
    fix f t cs ov st chunks y
    assume IH: "\<And>t cs ov st chunks y. f t cs ov st chunks = Some y \<Longrightarrow>
                  \<not> (t = loopText \<and> cs = 1600 \<and> ov = 320 \<and> st = 0)"
      and step: "(if st < int (length t) then
        (if st + cs \<ge> int (length t)
         then Some (chunks @ [trim (js_slice_from t st)])
         else
           (let breakPoint = find_break t st cs;
                start' = breakPoint + 1 - ov
            in f t cs ov (if start' < 0 then 0 else start')
                 (chunks @ [trim (js_slice t st (breakPoint + 1))])))
      else Some chunks) = Some y"
    show "\<not> (t = loopText \<and> cs = 1600 \<and> ov = 320 \<and> st = 0)"
    proof
      assume eq: "t = loopText \<and> cs = 1600 \<and> ov = 320 \<and> st = 0"
      have len: "length loopText = 2002" by (simp add: loopText_def)
      from step eq have "f loopText 1600 320 0 (chunks @ [trim (js_slice loopText 0 2)]) = Some y"
        by (simp add: find_break_loopText len)
      from IH[OF this] show False by simp
    qed
  qed
  then show ?thesis by simp
qed

text \<open>
  Claim C10 (with the default parameters \<open>chunkText\<close> terminates, the start position
  strictly increasing on every iteration) does not hold of the code. On the text
  \<open>a\<close>, a space, then 2000 times \<open>b\<close>, the only break point the search finds is the space
  at index 1 (the last-space fallback has no halfway minimum), the next start is
  \<open>1 + 1 - 320\<close> clamped to 0, and the loop is back in the state it started from: it
  never returns.
\<close>

theorem chunkText_loops_forever:
  "find_break loopText 0 CHUNK_SIZE + 1 - CHUNK_OVERLAP < 0
   \<and> chunkText loopText CHUNK_SIZE CHUNK_OVERLAP = None"
  by (simp add: chunkText_def CHUNK_SIZE_def CHUNK_OVERLAP_def chunk_loop_loopText_diverges
      find_break_loopText) (simp add: loopText_def)

section \<open>Properties of the entity graph\<close>

subsection \<open>The traversal caps\<close>

lemma push_entity_caps: "caps st \<Longrightarrow> caps (push_entity g name st)"
  by (auto simp: caps_def push_entity_def split: option.splits)

lemma seed_step_caps: "caps st \<Longrightarrow> caps (seed_step g name st)"
  unfolding seed_step_def
  by (simp add: caps_def push_entity_def split: option.splits)

lemma edge_step_caps: "caps st \<Longrightarrow> caps (edge_step g name edge st)"
  unfolding edge_step_def Let_def
  by (simp add: push_entity_caps caps_def push_entity_def split: option.splits)

lemma fold_caps:
  "(\<And>x st. caps st \<Longrightarrow> caps (f x st)) \<Longrightarrow> caps st \<Longrightarrow> caps (fold f xs st)"
  by (induction xs arbitrary: st) auto

lemma name_step_caps: "caps st \<Longrightarrow> caps (name_step g name st)"
  unfolding name_step_def by (rule fold_caps) (auto intro: edge_step_caps)

lemma hop_loop_caps: "caps st \<Longrightarrow> caps (hop_loop g k frontier st)"
proof (induction k arbitrary: frontier st)
  case 0
  then show ?case by simp
next
  case (Suc k)
  have "caps (st\<lparr>nextFrontier := []\<rparr>)" using Suc.prems by (simp add: caps_def)
  then have "caps (fold (name_step g) frontier (st\<lparr>nextFrontier := []\<rparr>))"
    by (rule fold_caps[rotated]) (rule name_step_caps)
  then show ?case using Suc by (simp add: Let_def)
qed

lemma seed_layer_caps: "caps (seed_layer g seeds)"
  unfolding seed_layer_def
proof (rule fold_caps)
  show "caps new_ctx" by (simp add: caps_def new_ctx_def)
qed (rule seed_step_caps)

lemma getContext_caps:
  "length (entities (getContext g seeds maxHops)) \<le> MAX_GRAPH_ENTITIES \<and>
   length (relationships (getContext g seeds maxHops)) \<le> MAX_GRAPH_RELATIONSHIPS"
  using hop_loop_caps[where st = "seed_layer g seeds" and g = g and k = maxHops and frontier = seeds] seed_layer_caps[of g seeds]
  by (simp add: getContext_def caps_def Let_def)

lemma push_entity_frame:
  "visitedNodes (push_entity g name st) = visitedNodes st"
  "seenEdges (push_entity g name st) = seenEdges st"
  "nextFrontier (push_entity g name st) = nextFrontier st"
  "resultRels (push_entity g name st) = resultRels st"
  by (simp_all add: push_entity_def split: option.splits)

lemma push_entity_traversal: "traversal (push_entity g name st) = traversal st"
  by (simp add: traversal_def push_entity_frame)

lemma edge_step_traversal:
  assumes "traversal st = traversal st'"
  shows "traversal (edge_step g name edge st) = traversal (edge_step g name edge st')"
proof -
  from assms have v: "visitedNodes st = visitedNodes st'" and s: "seenEdges st = seenEdges st'"
    and n: "nextFrontier st = nextFrontier st'"
    by (simp_all add: traversal_def)
  define other where "other = (if e_source edge = name then e_target edge else e_source edge)"
  show ?thesis
  proof (cases "edgeKey edge \<in> set (seenEdges st')")
    case True
    then show ?thesis using assms by (simp add: edge_step_def s)
  next
    case False
    show ?thesis
    proof (cases "other \<in> set (visitedNodes st')")
      case True
      with False show ?thesis
        unfolding edge_step_def Let_def other_def[symmetric] traversal_def
        by (simp add: v s n)
    next
      case other: False
      with False show ?thesis
        unfolding edge_step_def Let_def other_def[symmetric] traversal_def
        by (simp add: v s n push_entity_frame)
    qed
  qed
qed

lemma fold_traversal:
  "(\<And>x st st'. traversal st = traversal st' \<Longrightarrow> traversal (f x st) = traversal (f x st'))
   \<Longrightarrow> traversal st = traversal st' \<Longrightarrow> traversal (fold f xs st) = traversal (fold f xs st')"
proof (induction xs arbitrary: st st')
  case Nil
  then show ?case by simp
next
  case (Cons x xs)
  have "traversal (f x st) = traversal (f x st')" by (rule Cons.prems(1)) (rule Cons.prems(2))
  then have "traversal (fold f xs (f x st)) = traversal (fold f xs (f x st'))"
    using Cons.prems(1) by (intro Cons.IH)
  then show ?case by simp
qed

lemma name_step_traversal:
  "traversal st = traversal st' \<Longrightarrow> traversal (name_step g name st) = traversal (name_step g name st')"
  unfolding name_step_def by (rule fold_traversal) (rule edge_step_traversal)

lemma hop_loop_traversal:
  "traversal st = traversal st' \<Longrightarrow> traversal (hop_loop g k frontier st) = traversal (hop_loop g k frontier st')"
proof (induction k arbitrary: frontier st st')
  case 0
  then show ?case by simp
next
  case (Suc k)
  have "traversal (st\<lparr>nextFrontier := []\<rparr>) = traversal (st'\<lparr>nextFrontier := []\<rparr>)"
    using Suc.prems by (simp add: traversal_def)
  then have eq: "traversal (fold (name_step g) frontier (st\<lparr>nextFrontier := []\<rparr>))
         = traversal (fold (name_step g) frontier (st'\<lparr>nextFrontier := []\<rparr>))"
    by (rule fold_traversal[rotated]) (rule name_step_traversal)
  then have nf: "nextFrontier (fold (name_step g) frontier (st\<lparr>nextFrontier := []\<rparr>))
      = nextFrontier (fold (name_step g) frontier (st'\<lparr>nextFrontier := []\<rparr>))"
    by (simp add: traversal_def)
  show ?case
  proof (cases "frontier = []")
    case True
    then show ?thesis using Suc.prems by simp
  next
    case False
    then show ?thesis using Suc.IH[OF eq] by (simp add: Let_def nf)
  qed
qed


lemma seed_step_rels: "resultRels (seed_step g name st) = resultRels st"
  by (simp add: seed_step_def push_entity_frame)

lemma seed_layer_rels: "resultRels (seed_layer g seeds) = []"
proof -
  have "resultRels (fold (seed_step g) seeds st) = resultRels st" for st
    by (induction seeds arbitrary: st) (simp_all add: seed_step_rels)
  then show ?thesis by (simp add: seed_layer_def new_ctx_def)
qed

lemma edge_step_rels_dropped:
  "resultRels (edge_step g name edge st) = resultRels st
   \<or> length (resultRels st) < MAX_GRAPH_RELATIONSHIPS"
  by (simp add: edge_step_def Let_def push_entity_frame)

lemma push_entity_dropped:
  "resultEntities (push_entity g name st) = resultEntities st
   \<or> length (resultEntities st) < MAX_GRAPH_ENTITIES"
  by (simp add: push_entity_def split: option.splits)

lemma edge_step_entities_dropped:
  "resultEntities (edge_step g name edge st) = resultEntities st
   \<or> length (resultEntities st) < MAX_GRAPH_ENTITIES"
proof (cases "edgeKey edge \<in> set (seenEdges st)")
  case True
  then show ?thesis by (simp add: edge_step_def)
next
  case False
  define st2 where "st2 = (if length (resultRels st) < MAX_GRAPH_RELATIONSHIPS
           then st\<lparr>seenEdges := set_add (edgeKey edge) (seenEdges st),
                  resultRels := resultRels st @
                          [\<lparr>r_source = e_source edge, r_target = e_target edge,
                            r_relation = e_relation edge, r_date = e_date edge\<rparr>]\<rparr>
                   else st\<lparr>seenEdges := set_add (edgeKey edge) (seenEdges st)\<rparr>)"
  define other where "other = (if e_source edge = name then e_target edge else e_source edge)"
  have ents: "resultEntities st2 = resultEntities st" by (simp add: st2_def)
  have step: "edge_step g name edge st =
      (if other \<notin> set (visitedNodes st2)
       then push_entity g other (st2\<lparr>visitedNodes := set_add other (visitedNodes st2),
                        nextFrontier := nextFrontier st2 @ [other]\<rparr>)
       else st2)"
    using False by (simp add: edge_step_def Let_def st2_def other_def)
  show ?thesis
    using push_entity_dropped[of g other "st2\<lparr>visitedNodes := set_add other (visitedNodes st2),
                        nextFrontier := nextFrontier st2 @ [other]\<rparr>"]
    by (simp add: step ents)
qed

text \<open>
  Claim C5: for every graph, every seed list and every \<open>maxHops\<close>, \<open>getContext\<close> returns at
  most \<open>MAX_GRAPH_ENTITIES\<close> = 10 entities and at most \<open>MAX_GRAPH_RELATIONSHIPS\<close> = 20
  relationships. The seed layer is not a hop: with \<open>maxHops = 0\<close> the result is what the
  loop over the seeds collected, and no relationship. Once a cap is reached further hits
  are dropped (an edge step leaves a full result list as it is), while the traversal
  continues: the visited nodes, the seen edges and the next frontier do not depend on
  what the result lists hold.
\<close>

theorem getContext_bounded:
  "length (entities (getContext g seeds maxHops)) \<le> 10
   \<and> length (relationships (getContext g seeds maxHops)) \<le> 20
   \<and> getContext g seeds 0 = \<lparr>entities = resultEntities (seed_layer g seeds), relationships = []\<rparr>
   \<and> traversal (hop_loop g k frontier (st\<lparr>resultEntities := ents, resultRels := rels\<rparr>))
       = traversal (hop_loop g k frontier st)
   \<and> (resultRels (edge_step g name edge st) = resultRels st
        \<or> length (resultRels st) < MAX_GRAPH_RELATIONSHIPS)
   \<and> (resultEntities (edge_step g name edge st) = resultEntities st
        \<or> length (resultEntities st) < MAX_GRAPH_ENTITIES)"
proof -
  have "traversal (st\<lparr>resultEntities := ents, resultRels := rels\<rparr>) = traversal st"
    by (simp add: traversal_def)
  then have "traversal (hop_loop g k frontier (st\<lparr>resultEntities := ents, resultRels := rels\<rparr>))
       = traversal (hop_loop g k frontier st)"
    by (rule hop_loop_traversal)
  moreover have "getContext g seeds 0
      = \<lparr>entities = resultEntities (seed_layer g seeds), relationships = []\<rparr>"
    by (simp add: getContext_def seed_layer_rels)
  ultimately show ?thesis
    using getContext_caps[of g seeds maxHops] edge_step_rels_dropped[of g name edge st]
      edge_step_entities_dropped[of g name edge st]
    by (simp add: MAX_GRAPH_ENTITIES_def MAX_GRAPH_RELATIONSHIPS_def)
qed


lemma scenarioC_Alice:
  "getContext scenarioC [''Alice''] 2 =
     \<lparr>entities =
        [\<lparr>r_name = ''Alice'', r_type = ''person'', r_summary = ''Alice works at Acme''\<rparr>,
         \<lparr>r_name = ''Bob'', r_type = ''person'', r_summary = ''Bob is married to Alice''\<rparr>,
         \<lparr>r_name = ''Acme'', r_type = ''organization'', r_summary = ''Acme is a company''\<rparr>],
      relationships =
        [\<lparr>r_source = ''Alice'', r_target = ''Bob'', r_relation = ''married_to'', r_date = None\<rparr>,
         \<lparr>r_source = ''Alice'', r_target = ''Acme'', r_relation = ''works_at'', r_date = None\<rparr>]\<rparr>"
  by code_simp

lemma scenarioC_Bob:
  "map r_name (entities (getContext scenarioC [''Bob''] 0)) = [''Bob'']"
  "map r_name (entities (getContext scenarioC [''Bob''] 1)) = [''Bob'', ''Alice'']"
  "map r_name (entities (getContext scenarioC [''Bob''] 2)) = [''Bob'', ''Alice'', ''Acme'']"
  by code_simp+

theorem getContext_bounded_witness:
  "length (entities (getContext scenarioC [''Alice''] 2)) \<le> 10
   \<and> length (relationships (getContext scenarioC [''Alice''] 2)) \<le> 20
   \<and> map r_name (entities (getContext scenarioC [''Alice''] 2)) = [''Alice'', ''Bob'', ''Acme'']
   \<and> length (relationships (getContext scenarioC [''Alice''] 2)) = 2
   \<and> relationships (getContext scenarioC [''Bob''] 0) = []
   \<and> map r_name (entities (getContext scenarioC [''Bob''] 0)) = [''Bob'']
   \<and> map r_name (entities (getContext scenarioC [''Bob''] 1)) = [''Bob'', ''Alice'']"
proof -
  have "length (entities (getContext scenarioC [''Alice''] 2)) \<le> 10
      \<and> length (relationships (getContext scenarioC [''Alice''] 2)) \<le> 20"
    using getContext_bounded[where g = scenarioC and seeds = "[''Alice'']" and maxHops = 2
        and k = 0 and frontier = "[]" and st = new_ctx and ents = "[]" and rels = "[]"
        and name = "[]"
        and edge = "\<lparr>e_source = [], e_target = [], e_relation = [], e_date = None,
                    e_sessionId = []\<rparr>"]
    by simp
  moreover have "relationships (getContext scenarioC [''Bob''] 0) = []"
    using getContext_bounded[where g = scenarioC and seeds = "[''Bob'']" and maxHops = 0
        and k = 0 and frontier = "[]" and st = new_ctx and ents = "[]" and rels = "[]"
        and name = "[]"
        and edge = "\<lparr>e_source = [], e_target = [], e_relation = [], e_date = None,
                    e_sessionId = []\<rparr>"]
    by simp
  ultimately show ?thesis
    by (simp add: scenarioC_Alice scenarioC_Bob del: One_nat_def)
qed

subsection \<open>The representation invariant\<close>

lemma map_of_map_set: "map_of (map_set k v m) = (map_of m)(k \<mapsto> v)"
  by (induction m) auto

lemma map_fst_map_set:
  "map fst (map_set k v m) = (if k \<in> set (map fst m) then map fst m else map fst m @ [k])"
  by (induction m) auto

lemma distinct_map_set: "distinct (map fst m) \<Longrightarrow> distinct (map fst (map_set k v m))"
  by (simp add: map_fst_map_set)

lemma set_map_set_subset: "set (map_set k v m) \<subseteq> insert (k, v) (set m)"
  by (induction m) auto

lemma map_set_fresh: "k \<notin> set (map fst m) \<Longrightarrow> map_set k v m = m @ [(k, v)]"
  by (induction m) auto

lemma list_all_map_set:
  "list_all P m \<Longrightarrow> P (k, v) \<Longrightarrow> list_all P (map_set k v m)"
  by (induction m) auto

lemma map_of_is_mem: "map_of m k = Some v \<Longrightarrow> (k, v) \<in> set m"
  by (rule map_of_SomeD)

lemma distinct_set_add: "distinct xs \<Longrightarrow> distinct (set_add x xs)"
  by (simp add: set_add_def)

lemma set_set_add: "set (set_add x xs) = insert x (set xs)"
  by (auto simp: set_add_def)

lemma new_Set_distinct_id: "distinct xs \<Longrightarrow> new_Set xs = xs"
proof -
  have "distinct (acc @ xs) \<Longrightarrow> fold set_add xs acc = acc @ xs" for acc
    by (induction xs arbitrary: acc) (auto simp: set_add_def)
  from this[of "[]"] show "distinct xs \<Longrightarrow> new_Set xs = xs" by (simp add: new_Set_def)
qed

lemma distinct_new_Set: "distinct (new_Set xs)"
proof -
  have "distinct acc \<Longrightarrow> distinct (fold set_add xs acc)" for acc
    by (induction xs arbitrary: acc) (auto simp: distinct_set_add)
  then show ?thesis by (simp add: new_Set_def)
qed

lemma concat_snd_map_set:
  "set (concat (map snd (map_set k ((case map_of adj k of None \<Rightarrow> [] | Some es \<Rightarrow> es) @ [e]) adj)))
     = insert e (set (concat (map snd adj)))"
proof (induction adj)
  case Nil
  then show ?case by simp
next
  case (Cons p ps)
  show ?case
  proof (cases "fst p = k")
    case True
    then have "map_of (p # ps) k = Some (snd p)" by (cases p) simp
    with True show ?thesis by auto
  next
    case False
    then have "map_of (p # ps) k = map_of ps k" by (cases p) simp
    with False Cons.IH show ?thesis by simp
  qed
qed

lemma edges_of_adj_push:
  "set (concat (map snd (adj_push k e adj))) = insert e (set (concat (map snd adj)))"
  unfolding adj_push_def map_get_def by (rule concat_snd_map_set)

lemma edges_of_addRelationship:
  "edges_of (addRelationship edge g) =
     (if edgeKey edge \<in> set (edgeSet g) then edges_of g else insert edge (edges_of g))"
  by (simp add: addRelationship_def edges_of_def Let_def edges_of_adj_push del: set_concat)

lemma wf_new: "wf_graph new_EntityGraph"
  by (simp add: wf_graph_def new_EntityGraph_def edges_of_def)

lemma wf_clear: "wf_graph (clear_graph g)"
  by (simp add: wf_graph_def clear_graph_def edges_of_def)

lemma wf_addRelationship: "wf_graph g \<Longrightarrow> wf_graph (addRelationship edge g)"
proof (cases "edgeKey edge \<in> set (edgeSet g)")
  case True
  assume "wf_graph g"
  with True show ?thesis by (simp add: addRelationship_def)
next
  case False
  assume wf: "wf_graph g"
  have e: "edges_of (addRelationship edge g) = insert edge (edges_of g)"
    using False by (simp add: edges_of_addRelationship)
  have n: "nodes (addRelationship edge g) = nodes g"
    and s: "edgeSet (addRelationship edge g) = set_add (edgeKey edge) (edgeSet g)"
    using False by (simp_all add: addRelationship_def Let_def)
  from wf False have "edgeKey edge \<notin> edgeKey ` edges_of g" by (simp add: wf_graph_def)
  with wf have "inj_on edgeKey (insert edge (edges_of g))"
    by (auto simp: wf_graph_def)
  with wf show ?thesis
    unfolding wf_graph_def e n s by (simp add: distinct_set_add set_set_add)
qed


lemma edges_of_nodes_update [simp]:
  "edges_of (g\<lparr>nodes := ns, nameIndex := ix\<rparr>) = edges_of g"
  by (simp add: edges_of_def)

lemma wf_graph_nodes_update:
  assumes "wf_graph g" and "distinct (map fst ns)"
    and "list_all (\<lambda>(k, node). n_name node = k \<and> distinct (n_sessionIds node)) ns"
  shows "wf_graph (g\<lparr>nodes := ns, nameIndex := ix\<rparr>)"
  using assms by (simp add: wf_graph_def)

lemma wf_node_lookup:
  assumes "wf_graph g" and "map_get (nodes g) k = Some node"
  shows "n_name node = k \<and> distinct (n_sessionIds node)"
proof -
  from assms(2) have "(k, node) \<in> set (nodes g)"
    by (simp add: map_get_def map_of_SomeD)
  moreover from assms(1) have "\<forall>p\<in>set (nodes g). case p of (k, node) \<Rightarrow>
      n_name node = k \<and> distinct (n_sessionIds node)"
    by (simp add: wf_graph_def list_all_iff)
  ultimately show ?thesis by blast
qed

lemma wf_addEntity:
  assumes wf: "wf_graph g"
  shows "wf_graph (addEntity name type summary sessionId g)"
proof (cases "trim name = []")
  case True
  with wf show ?thesis by (simp add: addEntity_def)
next
  case False
  from wf have d: "distinct (map fst (nodes g))"
    and la: "list_all (\<lambda>(k, node). n_name node = k \<and> distinct (n_sessionIds node)) (nodes g)"
    by (simp_all add: wf_graph_def)
  show ?thesis
  proof (cases "map_get (nodes g) (trim name)")
    case None
    with False show ?thesis
      unfolding addEntity_def Let_def
      by (simp add: wf_graph_nodes_update[OF wf] distinct_map_set[OF d] list_all_map_set[OF la])
  next
    case (Some existing)
    from wf_node_lookup[OF wf Some] have "n_name existing = trim name"
      and "distinct (n_sessionIds existing)" by simp_all
    with False Some show ?thesis
      unfolding addEntity_def Let_def
      by (simp add: wf_graph_nodes_update[OF wf] distinct_map_set[OF d] list_all_map_set[OF la]
          distinct_set_add)
  qed
qed

lemma wf_load_node: "wf_graph g \<Longrightarrow> wf_graph (load_node node g)"
  unfolding load_node_def
  by (rule wf_graph_nodes_update)
    (simp_all add: wf_graph_def distinct_map_set list_all_map_set distinct_new_Set)

lemma wf_fold:
  "(\<And>x g. wf_graph g \<Longrightarrow> wf_graph (f x g)) \<Longrightarrow> wf_graph g \<Longrightarrow> wf_graph (fold f xs g)"
  by (induction xs arbitrary: g) simp_all

lemma wf_load: "wf_graph (load data g)"
  unfolding load_def
  by (intro wf_fold wf_addRelationship wf_load_node wf_clear)

lemma reachable_wf: "reachable g \<Longrightarrow> wf_graph g"
  by (induction rule: reachable.induct)
    (simp_all add: wf_new wf_addEntity wf_addRelationship wf_load wf_clear)


subsection \<open>A snapshot that is loaded holds the graph that was saved\<close>

lemma load_node_frame:
  "edgeSet (load_node node g) = edgeSet g" "adjacency (load_node node g) = adjacency g"
  by (simp_all add: load_node_def)

lemma fold_load_node_frame:
  "edgeSet (fold load_node ns g) = edgeSet g \<and> adjacency (fold load_node ns g) = adjacency g"
  by (induction ns arbitrary: g) (simp_all add: load_node_frame)

lemma addRelationship_nodes: "nodes (addRelationship edge g) = nodes g"
  by (simp add: addRelationship_def Let_def)

lemma fold_addRelationship_nodes: "nodes (fold addRelationship es g) = nodes g"
  by (induction es arbitrary: g) (simp_all add: addRelationship_nodes)

lemma fold_load_node_saved:
  assumes "list_all (\<lambda>(k, node). n_name node = k \<and> distinct (n_sessionIds node)) m"
    and "distinct (map fst (nodes g @ m))"
  shows "nodes (fold load_node
           (map (\<lambda>(k, node). \<lparr>s_name = n_name node, s_type = n_type node,
                     s_summary = n_summary node, s_sessionIds = n_sessionIds node\<rparr>) m) g)
         = nodes g @ m"
  using assms
proof (induction m arbitrary: g)
  case Nil
  then show ?case by simp
next
  case (Cons p m)
  obtain k node where p: "p = (k, node)" by (cases p)
  from Cons.prems p have nm: "n_name node = k" and ds: "distinct (n_sessionIds node)"
    and fresh: "k \<notin> set (map fst (nodes g))"
    by auto
  let ?g = "load_node \<lparr>s_name = n_name node, s_type = n_type node,
                     s_summary = n_summary node, s_sessionIds = n_sessionIds node\<rparr> g"
  have "nodes ?g = nodes g @ [(k, node)]"
    using nm ds fresh by (simp add: load_node_def map_set_fresh new_Set_distinct_id)
  moreover from Cons.prems p have "list_all (\<lambda>(k, node). n_name node = k \<and> distinct (n_sessionIds node)) m"
    by simp
  moreover from Cons.prems p have "distinct (map fst ((nodes g @ [(k, node)]) @ m))" by simp
  ultimately have "nodes (fold load_node
           (map (\<lambda>(k, node). \<lparr>s_name = n_name node, s_type = n_type node,
                     s_summary = n_summary node, s_sessionIds = n_sessionIds node\<rparr>) m) ?g)
         = (nodes g @ [(k, node)]) @ m"
    using Cons.IH[of ?g] by simp
  then show ?case by (simp add: p)
qed

lemma save_edge_ok: "saved_ok acc \<Longrightarrow> saved_ok (save_edge edge acc)"
  by (cases acc) (auto simp: saved_ok_def save_edge_def set_set_add)

lemma save_edge_subset: "set (fst (save_edge edge acc)) \<subseteq> insert edge (set (fst acc))"
  by (cases acc) (auto simp: save_edge_def)

lemma save_edge_keys:
  "saved_ok acc \<Longrightarrow> edgeKey ` set (fst (save_edge edge acc)) = insert (edgeKey edge) (edgeKey ` set (fst acc))"
  by (cases acc) (auto simp: saved_ok_def save_edge_def)

lemma fold_save_edge:
  "saved_ok acc \<Longrightarrow>
     saved_ok (fold save_edge xs acc)
     \<and> set (fst (fold save_edge xs acc)) \<subseteq> set (fst acc) \<union> set xs
     \<and> edgeKey ` set (fst (fold save_edge xs acc)) = edgeKey ` (set (fst acc) \<union> set xs)"
proof (induction xs arbitrary: acc)
  case Nil
  then show ?case by simp
next
  case (Cons x xs)
  from Cons.IH[OF save_edge_ok[OF Cons.prems, of x]]
    save_edge_subset[of x acc] save_edge_keys[OF Cons.prems, of x]
  show ?case by auto
qed

lemma inj_on_same_keys:
  assumes "inj_on f B" "A \<subseteq> B" "f ` A = f ` B"
  shows "A = B"
proof
  show "A \<subseteq> B" by fact
  show "B \<subseteq> A"
  proof
    fix b assume b: "b \<in> B"
    then have "f b \<in> f ` A" using assms(3) by simp
    then obtain a where a: "a \<in> A" "f a = f b" by auto
    with assms(1,2) b have "a = b" by (auto dest: inj_onD)
    with a show "b \<in> A" by simp
  qed
qed

lemma saved_edges:
  assumes "inj_on edgeKey (edges_of g)"
  shows "set (sg_edges (save g)) = edges_of g"
proof -
  have ok: "saved_ok ([], [])" by (simp add: saved_ok_def)
  from fold_save_edge[OF ok, of "concat (map snd (adjacency g))"]
  have "set (sg_edges (save g)) \<subseteq> edges_of g"
    and "edgeKey ` set (sg_edges (save g)) = edgeKey ` edges_of g"
    by (simp_all add: save_def edges_of_def del: set_concat)
  with assms show ?thesis by (intro inj_on_same_keys[of edgeKey])
qed

lemma fold_addRelationship_edges:
  "wf_graph g \<Longrightarrow>
     edges_of (fold addRelationship es g) \<subseteq> edges_of g \<union> set es
     \<and> edgeKey ` edges_of (fold addRelationship es g) = edgeKey ` (edges_of g \<union> set es)"
proof (induction es arbitrary: g)
  case Nil
  then show ?case by simp
next
  case (Cons e es)
  have wf': "wf_graph (addRelationship e g)" by (rule wf_addRelationship[OF Cons.prems])
  from Cons.prems have ks: "set (edgeSet g) = edgeKey ` edges_of g" by (simp add: wf_graph_def)
  have sub: "edges_of (addRelationship e g) \<subseteq> insert e (edges_of g)"
    by (auto simp: edges_of_addRelationship)
  have keys: "edgeKey ` edges_of (addRelationship e g) = insert (edgeKey e) (edgeKey ` edges_of g)"
    using ks by (auto simp: edges_of_addRelationship)
  from Cons.IH[OF wf'] sub keys show ?case by auto
qed


text \<open>
  Claim C9: for every entity graph \<open>G\<close> (every graph the methods of the class can build),
  loading what \<open>save\<close> produced yields a graph equal to \<open>G\<close>: the same nodes (name, type,
  summary and session ids, in the same order), the same edges (source, target, relation,
  date and session id), the same set of edge keys, and the same node and edge counts.
  \<open>load\<close> clears the receiving graph first, so the graph \<open>g'\<close> it is called on is arbitrary.
\<close>

theorem load_save_roundtrip:
  assumes "reachable g"
  shows "nodes (load (save g) g') = nodes g
       \<and> edges_of (load (save g) g') = edges_of g
       \<and> set (edgeSet (load (save g) g')) = set (edgeSet g)
       \<and> nodeCount (load (save g) g') = nodeCount g
       \<and> edgeCount (load (save g) g') = edgeCount g"
proof -
  from assms have wf: "wf_graph g" by (rule reachable_wf)
  then have inj: "inj_on edgeKey (edges_of g)" and ks: "set (edgeSet g) = edgeKey ` edges_of g"
    and la: "list_all (\<lambda>(k, node). n_name node = k \<and> distinct (n_sessionIds node)) (nodes g)"
    and dn: "distinct (map fst (nodes g))" and de: "distinct (edgeSet g)"
    by (simp_all add: wf_graph_def)
  define g1 where "g1 = fold load_node (sg_nodes (save g)) (clear_graph g')"
  define g2 where "g2 = load (save g) g'"
  have g2: "g2 = fold addRelationship (sg_edges (save g)) g1"
    by (simp add: g2_def g1_def load_def)
  have wf1: "wf_graph g1" unfolding g1_def by (intro wf_fold wf_load_node wf_clear)
  have wf2: "wf_graph g2" unfolding g2_def by (rule wf_load)
  have e1: "edges_of g1 = {}"
    using fold_load_node_frame[of "sg_nodes (save g)" "clear_graph g'"]
    by (simp add: g1_def edges_of_def clear_graph_def)
  have n1: "nodes g1 = nodes g"
    unfolding g1_def using fold_load_node_saved[OF la, of "clear_graph g'"] dn
    by (simp add: save_def clear_graph_def)
  have nodes: "nodes g2 = nodes g" by (simp add: g2 fold_addRelationship_nodes n1)
  have se: "set (sg_edges (save g)) = edges_of g" by (rule saved_edges[OF inj])
  from fold_addRelationship_edges[OF wf1, of "sg_edges (save g)"]
  have "edges_of g2 \<subseteq> edges_of g" and "edgeKey ` edges_of g2 = edgeKey ` edges_of g"
    by (simp_all add: g2 e1 se)
  with inj have edges: "edges_of g2 = edges_of g" by (intro inj_on_same_keys[of edgeKey])
  from wf2 have "set (edgeSet g2) = edgeKey ` edges_of g2" and de2: "distinct (edgeSet g2)"
    by (simp_all add: wf_graph_def)
  with edges ks have keys: "set (edgeSet g2) = set (edgeSet g)" by simp
  have "length (edgeSet g2) = card (set (edgeSet g2))" using de2 by (simp add: distinct_card)
  also have "\<dots> = length (edgeSet g)" using de keys by (simp add: distinct_card)
  finally have "edgeCount g2 = edgeCount g" by (simp add: edgeCount_def)
  with nodes edges keys show ?thesis by (simp add: g2_def nodeCount_def)
qed


lemma scenarioC_counts: "nodeCount scenarioC = 3" "edgeCount scenarioC = 2"
  by code_simp+

theorem load_save_roundtrip_witness:
  "reachable scenarioC
   \<and> nodes (load (save scenarioC) new_EntityGraph) = nodes scenarioC
   \<and> edges_of (load (save scenarioC) new_EntityGraph) = edges_of scenarioC
   \<and> set (edgeSet (load (save scenarioC) new_EntityGraph)) = set (edgeSet scenarioC)
   \<and> nodeCount (load (save scenarioC) new_EntityGraph) = 3
   \<and> edgeCount (load (save scenarioC) new_EntityGraph) = 2"
proof -
  have r: "reachable scenarioC"
    unfolding scenarioC_def by (intro reachable.intros)
  from load_save_roundtrip[OF r, of new_EntityGraph] r show ?thesis
    by (simp add: scenarioC_counts)
qed

subsection \<open>What \<open>addEntity\<close> stores\<close>

lemma toLowerCase_char_idem: "toLowerCase_char (toLowerCase_char c) = toLowerCase_char c"
  unfolding toLowerCase_char_def Let_def
  by (auto simp: of_char_mod_256 [simplified])

lemma toLowerCase_idem: "toLowerCase (toLowerCase s) = toLowerCase s"
  by (simp add: toLowerCase_def toLowerCase_char_idem)

lemma lowercase_types_addEntity:
  assumes "lowercase_types g"
  shows "lowercase_types (addEntity name type summary sessionId g)"
proof (cases "map_get (nodes g) (trim name)")
  case None
  with assms show ?thesis
    by (simp add: lowercase_types_def addEntity_def Let_def list_all_map_set toLowerCase_idem)
next
  case (Some existing)
  then have "(trim name, existing) \<in> set (nodes g)"
    by (simp add: map_get_def map_of_SomeD)
  with assms have "toLowerCase (n_type existing) = n_type existing"
    by (auto simp: lowercase_types_def list_all_iff)
  with assms Some show ?thesis
    by (simp add: lowercase_types_def addEntity_def Let_def list_all_map_set)
qed

lemma addEntity_sequence_names_and_types:
  "wf_graph (fold (\<lambda>(name, type, summary, sessionId). addEntity name type summary sessionId)
       calls new_EntityGraph)
   \<and> lowercase_types (fold (\<lambda>(name, type, summary, sessionId).
       addEntity name type summary sessionId) calls new_EntityGraph)"
proof -
  have "wf_graph g \<and> lowercase_types g \<Longrightarrow>
        wf_graph (fold (\<lambda>(name, type, summary, sessionId). addEntity name type summary sessionId) calls g)
      \<and> lowercase_types (fold (\<lambda>(name, type, summary, sessionId).
            addEntity name type summary sessionId) calls g)" for g
    by (induction calls arbitrary: g)
      (auto simp: wf_addEntity lowercase_types_addEntity split: prod.splits)
  moreover have "lowercase_types new_EntityGraph"
    by (simp add: lowercase_types_def new_EntityGraph_def)
  ultimately show ?thesis using wf_new by blast
qed

lemma toLowerCase_Person: "toLowerCase ''Person'' = ''person''"
  by code_simp

text \<open>
  Claim C4 (after any sequence of \<open>addEntity\<close> calls every stored node has a summary of at
  most 500 characters, a lowercase type and a name of its own) does not hold of the code.
  Names are unique and types are lowercase (\<open>addEntity_sequence_names_and_types\<close>), but only
  the merge branch truncates the summary: the branch that creates a node stores the
  summary as it was passed, in the in-memory graph and in the relational store alike. One
  call with a summary of 501 characters stores all 501.
\<close>

theorem addEntity_stores_long_summary:
  "map (\<lambda>(k, node). (k, n_type node, length (n_summary node)))
       (nodes (addEntity ''Alice'' ''Person'' (replicate 501 CHR ''x'') ''s1'' new_EntityGraph))
     = [(''Alice'', ''person'', 501)]
   \<and> map (\<lambda>r. (er_name r, er_type r, length (er_summary r)))
       (pg_addEntity ''t'' ''Alice'' ''Person'' (replicate 501 CHR ''x'') ''s1'' [])
     = [(''Alice'', ''person'', 501)]"
  by (simp add: addEntity_def pg_addEntity_def new_EntityGraph_def trim_def is_space_def map_get_def
      toLowerCase_Person Let_def)

section \<open>Properties of the extraction parser\<close>

lemma js_includes_single: "js_includes l [c] \<longleftrightarrow> c \<in> set l"
proof
  assume "js_includes l [c]"
  then obtain ps ss where "l = ps @ [c] @ ss" by (auto simp: js_includes_def sublist_def)
  then show "c \<in> set l" by simp
next
  assume "c \<in> set l"
  then obtain ps ss where "l = ps @ c # ss" by (auto simp: in_set_conv_decomp)
  then show "js_includes l [c]" by (auto simp: js_includes_def sublist_def)
qed

lemma trim_Nil_iff: "trim s = [] \<longleftrightarrow> (\<forall>c\<in>set s. is_space c)"
proof
  assume "trim s = []"
  then have "dropWhile is_space (rev (dropWhile is_space s)) = []" by (simp add: trim_def)
  then have "\<forall>c\<in>set (dropWhile is_space s). is_space c" by (simp add: dropWhile_eq_Nil_conv)
  moreover have "\<forall>c\<in>set (takeWhile is_space s). is_space c" by (auto dest: set_takeWhileD)
  moreover have "set s = set (takeWhile is_space s) \<union> set (dropWhile is_space s)"
    by (metis set_append takeWhile_dropWhile_id)
  ultimately show "\<forall>c\<in>set s. is_space c" by blast
next
  assume "\<forall>c\<in>set s. is_space c"
  then show "trim s = []" by (auto simp: trim_def dest: set_dropWhileD)
qed

lemma set_trim_subset: "set (trim s) \<subseteq> set s"
proof -
  have "set (dropWhile P xs) \<subseteq> set xs" for P and xs :: string
    by (auto dest: set_dropWhileD)
  then have "set (dropWhile is_space (rev (dropWhile is_space s))) \<subseteq> set s"
    by (metis set_rev subset_trans)
  then show ?thesis by (simp add: trim_def)
qed

lemma pipe_not_space: "\<not> is_space CHR ''|''"
  by (simp add: is_space_def)

lemma length_split_on: "length (split_on c s) = Suc (count_list s c)"
  by (induction s) (auto split: list.splits)

lemma split_on_no_sep: "f \<in> set (split_on c s) \<Longrightarrow> c \<notin> set f"
  by (induction s arbitrary: f) (auto split: list.splits if_splits)

lemma count_js_join:
  "(\<And>f. f \<in> set fs \<Longrightarrow> c \<notin> set f) \<Longrightarrow> fs \<noteq> [] \<Longrightarrow> Suc (count_list (js_join [c] fs) c) = length fs"
  by (induction "[c]" fs rule: js_join.induct) (auto simp: count_list_0_iff)

lemma first_three_fields:
  "(length (map trim fs) \<ge> 3 \<and> map trim fs ! 0 \<noteq> [] \<and> map trim fs ! 1 \<noteq> []
      \<and> map trim fs ! 2 \<noteq> [])
   = (length fs \<ge> 3 \<and> trim (fs ! 0) \<noteq> [] \<and> trim (fs ! 1) \<noteq> [] \<and> trim (fs ! 2) \<noteq> [])"
proof (cases "length fs \<ge> 3")
  case True
  then have "fs \<noteq> []" by auto
  with True show ?thesis by simp
next
  case False
  then show ?thesis by simp
qed

lemma parse_entity_line_accepts: "(parse_entity_line line \<noteq> None) = spec_accepts line"
proof (cases "CHR ''|'' \<in> set line")
  case True
  then have "trim line \<noteq> []" using pipe_not_space by (auto simp: trim_Nil_iff)
  with True show ?thesis
    unfolding parse_entity_line_def spec_accepts_def Let_def first_three_fields
    by (simp add: js_includes_single)
next
  case False
  then show ?thesis
    by (simp add: parse_entity_line_def spec_accepts_def js_includes_single)
qed

lemma parse_relationship_line_accepts: "(parse_relationship_line line \<noteq> None) = spec_accepts line"
proof (cases "CHR ''|'' \<in> set line")
  case True
  then have "trim line \<noteq> []" using pipe_not_space by (auto simp: trim_Nil_iff)
  with True show ?thesis
    unfolding parse_relationship_line_def spec_accepts_def Let_def first_three_fields
    by (simp add: js_includes_single)
next
  case False
  then show ?thesis
    by (simp add: parse_relationship_line_def spec_accepts_def js_includes_single)
qed

lemma parse_entity_line_fields:
  assumes "parse_entity_line line = Some e"
  shows "pe_name e = trim (split_on CHR ''|'' line ! 0)
       \<and> pe_type e = trim (split_on CHR ''|'' line ! 1)
       \<and> pe_summary e = js_join ''|'' (map trim (drop 2 (split_on CHR ''|'' line)))
       \<and> count_list (pe_summary e) CHR ''|'' + 2 = count_list line CHR ''|''"
proof -
  let ?fs = "split_on CHR ''|'' line"
  from assms have len: "length ?fs \<ge> 3"
    by (auto simp: parse_entity_line_def Let_def split: if_splits)
  then have ne: "?fs \<noteq> []" by auto
  from assms ne have e: "e = \<lparr>pe_name = trim (?fs ! 0), pe_type = trim (?fs ! 1),
                 pe_summary = js_join ''|'' (map trim (drop 2 ?fs))\<rparr>"
    by (auto simp: parse_entity_line_def Let_def drop_map split: if_splits)
  have "f \<in> set (map trim (drop 2 ?fs)) \<Longrightarrow> CHR ''|'' \<notin> set f" for f
    using split_on_no_sep[of _ "CHR ''|''" line] set_trim_subset
    by (auto dest!: in_set_dropD)
  moreover have "map trim (drop 2 ?fs) \<noteq> []" using len by simp
  ultimately have "Suc (count_list (js_join ''|'' (map trim (drop 2 ?fs))) CHR ''|'')
      = length (map trim (drop 2 ?fs))"
    by (rule count_js_join)
  then have "count_list (pe_summary e) CHR ''|'' + 2 = count_list line CHR ''|''"
    using len by (simp add: e length_split_on)
  then show ?thesis by (simp add: e)
qed


lemma map_filter_accepts:
  "(\<And>x. (f x \<noteq> None) = P x) \<Longrightarrow> List.map_filter f xs = map (the \<circ> f) (filter P xs)"
  by (simp add: List.map_filter_def)

lemma parseExtractionOutput_sel:
  "p_entities (parseExtractionOutput rawText) =
     (case match_section ''entities'' rawText of
        Some sec \<Rightarrow> List.map_filter parse_entity_line (split_on CHR 0x0A (trim sec))
      | None \<Rightarrow> [])"
  "p_relationships (parseExtractionOutput rawText) =
     (case match_section ''relationships'' rawText of
        Some sec \<Rightarrow> List.map_filter parse_relationship_line (split_on CHR 0x0A (trim sec))
      | None \<Rightarrow> [])"
  "memoriesText (parseExtractionOutput rawText) =
     (case match_section ''memories'' rawText of
        Some m \<Rightarrow> trim m
      | None \<Rightarrow> trim (remove_sections ''relationships'' (remove_sections ''entities'' rawText)))"
  by (simp_all add: parseExtractionOutput_def Let_def)

text \<open>
  Claim C7: a line of the \<open>entities\<close> or of the \<open>relationships\<close> section is accepted by
  \<open>parseExtractionOutput\<close> if and only if it contains a pipe and its first three
  pipe-separated fields are non-empty after trimming (\<open>spec_accepts\<close>; the code's extra
  test that the trimmed line is non-empty follows from the pipe). The entities and
  relationships returned are exactly those of the accepted lines of the section, in
  order. For an accepted entity line the name and the type are the first two fields
  trimmed, and the summary is the remaining fields, each trimmed, joined again with
  pipes: every pipe after the second one is retained.
\<close>

theorem parseExtractionOutput_line_acceptance:
  "(parse_entity_line line \<noteq> None) = spec_accepts line
   \<and> (parse_relationship_line line \<noteq> None) = spec_accepts line
   \<and> (case parse_entity_line line of
         None \<Rightarrow> True
       | Some e \<Rightarrow>
           pe_name e = trim (split_on CHR ''|'' line ! 0)
           \<and> pe_type e = trim (split_on CHR ''|'' line ! 1)
           \<and> pe_summary e = js_join ''|'' (map trim (drop 2 (split_on CHR ''|'' line)))
           \<and> count_list (pe_summary e) CHR ''|'' + 2 = count_list line CHR ''|'')
   \<and> p_entities (parseExtractionOutput rawText) =
       (case match_section ''entities'' rawText of
          None \<Rightarrow> []
        | Some sec \<Rightarrow>
            map (the \<circ> parse_entity_line) (filter spec_accepts (split_on CHR 0x0A (trim sec))))
   \<and> p_relationships (parseExtractionOutput rawText) =
       (case match_section ''relationships'' rawText of
          None \<Rightarrow> []
        | Some sec \<Rightarrow>
            map (the \<circ> parse_relationship_line)
              (filter spec_accepts (split_on CHR 0x0A (trim sec))))"
proof -
  have fields: "(case parse_entity_line line of
         None \<Rightarrow> True
       | Some e \<Rightarrow>
           pe_name e = trim (split_on CHR ''|'' line ! 0)
           \<and> pe_type e = trim (split_on CHR ''|'' line ! 1)
           \<and> pe_summary e = js_join ''|'' (map trim (drop 2 (split_on CHR ''|'' line)))
           \<and> count_list (pe_summary e) CHR ''|'' + 2 = count_list line CHR ''|'')"
  proof (cases "parse_entity_line line")
    case None
    then show ?thesis by simp
  next
    case (Some e)
    show ?thesis
      unfolding Some option.case by (rule parse_entity_line_fields[OF Some])
  qed
  have ents: "List.map_filter parse_entity_line xs
      = map (the \<circ> parse_entity_line) (filter spec_accepts xs)" for xs
    by (rule map_filter_accepts) (rule parse_entity_line_accepts)
  have rels: "List.map_filter parse_relationship_line xs
      = map (the \<circ> parse_relationship_line) (filter spec_accepts xs)" for xs
    by (rule map_filter_accepts) (rule parse_relationship_line_accepts)
  have "p_entities (parseExtractionOutput rawText) =
       (case match_section ''entities'' rawText of
          None \<Rightarrow> []
        | Some sec \<Rightarrow>
            map (the \<circ> parse_entity_line) (filter spec_accepts (split_on CHR 0x0A (trim sec))))"
    by (cases "match_section ''entities'' rawText") (simp_all add: parseExtractionOutput_sel ents)
  moreover have "p_relationships (parseExtractionOutput rawText) =
       (case match_section ''relationships'' rawText of
          None \<Rightarrow> []
        | Some sec \<Rightarrow>
            map (the \<circ> parse_relationship_line)
              (filter spec_accepts (split_on CHR 0x0A (trim sec))))"
    by (cases "match_section ''relationships'' rawText")
      (simp_all add: parseExtractionOutput_sel rels)
  ultimately show ?thesis
    using parse_entity_line_accepts[of line] parse_relationship_line_accepts[of line] fields
    by blast
qed

lemma sampleExtraction_parsed:
  "parseExtractionOutput sampleExtraction =
     \<lparr>memoriesText = ''[2024-05-09] Al got a Sony A7.\<newline>x'',
      p_entities =
        [\<lparr>pe_name = ''Al'', pe_type = ''person'', pe_summary = ''likes|pipes''\<rparr>,
         \<lparr>pe_name = ''Sony A7'', pe_type = ''object'', pe_summary = ''a camera''\<rparr>],
      p_relationships =
        [\<lparr>pr_source = ''Al'', pr_relation = ''owns'', pr_target = ''Sony A7'',
          pr_date = Some ''2024-05-09''\<rparr>],
      eventDates = [(0, ''2024-05-09'')]\<rparr>"
  by code_simp

lemma sample_lines:
  "parse_entity_line ''Al | person | likes | pipes''
     = Some \<lparr>pe_name = ''Al'', pe_type = ''person'', pe_summary = ''likes|pipes''\<rparr>"
  "parse_entity_line ''bad|line'' = None"
  "parse_entity_line ''|a|b|c'' = None"
  by code_simp+

theorem parseExtractionOutput_line_acceptance_witness:
  "spec_accepts ''Al | person | likes | pipes''
   \<and> \<not> spec_accepts ''bad|line''
   \<and> \<not> spec_accepts ''|a|b|c''
   \<and> map pe_summary (p_entities (parseExtractionOutput sampleExtraction)) = [''likes|pipes'', ''a camera'']"
proof -
  have "(parse_entity_line ''Al | person | likes | pipes'' \<noteq> None)
      = spec_accepts ''Al | person | likes | pipes''"
    using parseExtractionOutput_line_acceptance[of "''Al | person | likes | pipes''" sampleExtraction]
    by (rule conjunct1)
  then have 1: "spec_accepts ''Al | person | likes | pipes''"
    by (simp add: sample_lines)
  have "(parse_entity_line ''bad|line'' \<noteq> None) = spec_accepts ''bad|line''"
    using parseExtractionOutput_line_acceptance[of "''bad|line''" sampleExtraction]
    by (rule conjunct1)
  then have 2: "\<not> spec_accepts ''bad|line''"
    by (simp add: sample_lines)
  have "(parse_entity_line ''|a|b|c'' \<noteq> None) = spec_accepts ''|a|b|c''"
    using parseExtractionOutput_line_acceptance[of "''|a|b|c''" sampleExtraction]
    by (rule conjunct1)
  then have 3: "\<not> spec_accepts ''|a|b|c''"
    by (simp add: sample_lines)
  from 1 2 3 show ?thesis
    by (simp add: sampleExtraction_parsed)
qed

section \<open>Properties of the query classifier\<close>

text \<open>
  Claim C8: for every query, the classifier returns the first matching class in the
  priority order temporal, knowledge-update, multi-hop, preference, assistant-recall,
  factual, and general when none matches, each class being defined by the
  case-insensitive match of its regular expressions of the glossary. The code's chain of
  tests over the lower-cased query computes the same class as the search through the
  glossary table.
\<close>

theorem detectQueryType_refines_glossary:
  "detectQueryType query = spec_classify query
   \<and> map fst glossary = [''temporal'', ''knowledge-update'', ''multi-hop'', ''preference'',
        ''assistant-recall'', ''factual'']
   \<and> detectQueryType query \<in> set (map fst glossary @ [''general''])"
proof -
  have "detectQueryType query = spec_classify query"
    unfolding detectQueryType_def spec_classify_def glossary_def matches_ci_def Let_def
      temporal_rx_def knowledge_update_rx_def multi_hop_rx1_def multi_hop_rx2_def
      preference_rx_def assistant_recall_rx_def factual_rx_def
    by simp
  moreover have "detectQueryType query \<in> set (map fst glossary @ [''general''])"
    unfolding detectQueryType_def glossary_def Let_def by simp
  moreover have "map fst glossary = [''temporal'', ''knowledge-update'', ''multi-hop'',
      ''preference'', ''assistant-recall'', ''factual'']"
    by (simp add: glossary_def)
  ultimately show ?thesis by simp
qed

lemma detectQueryType_examples:
  "detectQueryType ''When did I move to Berlin?'' = ''temporal''"
  "detectQueryType ''What is my new job'' = ''knowledge-update''"
  "detectQueryType ''Do I like my sister's dog's collar'' = ''multi-hop''"
  "detectQueryType ''Do I like cats'' = ''preference''"
  "detectQueryType ''Did you say that'' = ''assistant-recall''"
  "detectQueryType ''Who is Bob'' = ''factual''"
  "detectQueryType ''whenever'' = ''general''"
  by code_simp+

theorem detectQueryType_refines_glossary_witness:
  "spec_classify ''When did I move to Berlin?'' = ''temporal''
   \<and> spec_classify ''What is my new job'' = ''knowledge-update''
   \<and> spec_classify ''Do I like my sister's dog's collar'' = ''multi-hop''
   \<and> spec_classify ''Do I like cats'' = ''preference''
   \<and> spec_classify ''Did you say that'' = ''assistant-recall''
   \<and> spec_classify ''Who is Bob'' = ''factual''
   \<and> spec_classify ''whenever'' = ''general''"
  using detectQueryType_refines_glossary[of "''When did I move to Berlin?''"]
    detectQueryType_refines_glossary[of "''What is my new job''"]
    detectQueryType_refines_glossary[of "''Do I like my sister's dog's collar''"]
    detectQueryType_refines_glossary[of "''Do I like cats''"]
    detectQueryType_refines_glossary[of "''Did you say that''"]
    detectQueryType_refines_glossary[of "''Who is Bob''"]
    detectQueryType_refines_glossary[of "''whenever''"]
  unfolding detectQueryType_examples
  by simp

section \<open>Properties of the reranker driver\<close>

lemma rerank_loop_fails:
  assumes "reply_fails parse (llm attempt)"
  shows "rerank_loop parse llm results topK attempt =
           (if attempt < 2 then rerank_loop parse llm results topK (Suc attempt)
            else slice_top results topK)"
  using assms
  by (subst rerank_loop.simps) (auto simp: reply_fails_def split: llm_reply.splits option.splits)

text \<open>
  Claim C6: for a candidate list with more than \<open>k\<close> elements, if each of the three calls of
  the reranker model throws, or returns a text without a bracketed block, or returns a
  block that does not parse, then \<open>rerankResults\<close> returns the first \<open>k\<close> candidates in their
  original order, unchanged. The model of \<open>rerankResults\<close> has no error result: every
  exception of the loop body is caught by the loop itself.
\<close>

theorem rerankResults_fallback:
  assumes "k < int (length results)" and "0 \<le> k"
    and "\<forall>attempt < 3. reply_fails parse (llm attempt)"
  shows "rerankResults parse llm query results k = take (nat k) results"
proof -
  from assms(3) have f: "reply_fails parse (llm 0)" "reply_fails parse (llm 1)"
    "reply_fails parse (llm 2)" by simp_all
  have "rerank_loop parse llm results k 2 = slice_top results k"
    using rerank_loop_fails[where llm = llm and attempt = 2 and parse = parse and results = results and topK = k] f(3) by simp
  moreover have "rerank_loop parse llm results k 1 = rerank_loop parse llm results k 2"
    using rerank_loop_fails[where llm = llm and attempt = 1 and parse = parse and results = results and topK = k] f(2) by (simp add: numeral_2_eq_2)
  moreover have "rerank_loop parse llm results k 0 = rerank_loop parse llm results k 1"
    using rerank_loop_fails[where llm = llm and attempt = 0 and parse = parse and results = results and topK = k] f(1) by simp
  ultimately have "rerank_loop parse llm results k 0 = slice_top results k" by simp
  with assms(1,2) show ?thesis by (simp add: rerankResults_def slice_top_def)
qed


theorem rerankResults_fallback_witness:
  "rerankResults (\<lambda>js. None) failing_llm ''which camera''
     [hit ''a'' 0.9, hit ''b'' 0.8, hit ''c'' 0.7] 2 = [hit ''a'' 0.9, hit ''b'' 0.8]"
proof -
  have "\<forall>attempt < 3. reply_fails (\<lambda>js. None) (failing_llm attempt)"
    by (simp add: reply_fails_def failing_llm_def split: option.splits)
  from rerankResults_fallback[OF _ _ this, of 2 "[hit ''a'' 0.9, hit ''b'' 0.8, hit ''c'' 0.7]"
      "''which camera''"]
  show ?thesis by simp
qed

section \<open>Properties of the hybrid search of the relational store\<close>

subsection \<open>The Cauchy-Schwarz inequality for the dot product of two lists\<close>

lemma cs_step:
  fixes x y P A B :: real
  assumes "P\<^sup>2 \<le> A * B" "0 \<le> A" "0 \<le> B"
  shows "(x * y + P)\<^sup>2 \<le> (x\<^sup>2 + A) * (y\<^sup>2 + B)"
proof -
  let ?u = "x\<^sup>2 * B" and ?v = "y\<^sup>2 * A"
  have uv: "0 \<le> ?u" "0 \<le> ?v" using assms by simp_all
  have "(2 * x * y * P)\<^sup>2 = 4 * (x\<^sup>2 * y\<^sup>2) * P\<^sup>2"
    by (simp add: power2_eq_square algebra_simps)
  also have "\<dots> \<le> 4 * (x\<^sup>2 * y\<^sup>2) * (A * B)"
    using assms(1) by (intro mult_left_mono) simp_all
  also have "\<dots> = 4 * ?u * ?v" by (simp add: algebra_simps)
  also have "\<dots> \<le> (?u + ?v)\<^sup>2"
  proof -
    have "(?u + ?v)\<^sup>2 - 4 * ?u * ?v = (?u - ?v)\<^sup>2"
      by (simp add: power2_eq_square algebra_simps)
    moreover have "0 \<le> (?u - ?v)\<^sup>2" by simp
    ultimately show ?thesis by linarith
  qed
  finally have "(2 * x * y * P)\<^sup>2 \<le> (?u + ?v)\<^sup>2" .
  moreover have "0 \<le> ?u + ?v" using uv by simp
  ultimately have "2 * x * y * P \<le> ?u + ?v" by (rule power2_le_imp_le)
  moreover have "(x * y + P)\<^sup>2 = x\<^sup>2 * y\<^sup>2 + 2 * x * y * P + P\<^sup>2"
    by (simp add: power2_eq_square algebra_simps)
  moreover have "(x\<^sup>2 + A) * (y\<^sup>2 + B) = x\<^sup>2 * y\<^sup>2 + ?u + ?v + A * B"
    by (simp add: algebra_simps)
  ultimately show ?thesis using assms(1) by linarith
qed

lemma dot_self_nonneg: "0 \<le> dot a a"
  unfolding dot_def by (induction a) simp_all

lemma dot_Cons: "dot (x # a) (y # b) = x * y + dot a b"
  by (simp add: dot_def)

lemma cauchy_schwarz: "length a = length b \<Longrightarrow> (dot a b)\<^sup>2 \<le> dot a a * dot b b"
proof (induction a b rule: list_induct2)
  case Nil
  then show ?case by (simp add: dot_def)
next
  case (Cons x xs y ys)
  have "(x * y + dot xs ys)\<^sup>2 \<le> (x\<^sup>2 + dot xs xs) * (y\<^sup>2 + dot ys ys)"
    by (rule cs_step[OF Cons.IH dot_self_nonneg dot_self_nonneg])
  then show ?case by (simp add: dot_Cons power2_eq_square)
qed

lemma cosine_bounds:
  assumes "length a = length b" "0 < dot a a" "0 < dot b b"
  shows "- 1 \<le> 1 - cosine_distance a b \<and> 1 - cosine_distance a b \<le> 1"
proof -
  let ?n = "sqrt (dot a a * dot b b)"
  have pos: "0 < ?n" using assms(2,3) by simp
  have "(dot a b)\<^sup>2 \<le> dot a a * dot b b" by (rule cauchy_schwarz[OF assms(1)])
  then have "\<bar>dot a b\<bar> \<le> ?n" by (rule real_le_rsqrt[of "\<bar>dot a b\<bar>", simplified])
  then have "- ?n \<le> dot a b" and "dot a b \<le> ?n" by (simp_all add: abs_le_iff)
  then have "- 1 \<le> dot a b / ?n" and "dot a b / ?n \<le> 1"
    using pos by (simp_all add: field_simps)
  then show ?thesis by (simp add: cosine_distance_def)
qed


lemma fold_max_ge:
  "m \<le> fold (\<lambda>(r, vs, s) m. if s > m then s else m) rows (m::real)"
proof (induction rows arbitrary: m)
  case Nil
  then show ?case by simp
next
  case (Cons p rows)
  obtain r vs s where p: "p = (r, vs, s)" by (cases p)
  have "m \<le> (if s > m then s else m)" by simp
  also have "\<dots> \<le> fold (\<lambda>(r, vs, s) m. if s > m then s else m) rows (if s > m then s else m)"
    by (rule Cons.IH)
  finally show ?case by (simp add: p)
qed

lemma fold_max_upper:
  "(r, vs, s) \<in> set rows \<Longrightarrow> s \<le> fold (\<lambda>(r, vs, s) m. if s > m then s else m) rows (m::real)"
proof (induction rows arbitrary: m)
  case Nil
  then show ?case by simp
next
  case (Cons p rows)
  obtain r' vs' s' where p: "p = (r', vs', s')" by (cases p)
  show ?case
  proof (cases "(r, vs, s) = p")
    case True
    then have "s \<le> (if s' > m then s' else m)" using p by auto
    also have "\<dots> \<le> fold (\<lambda>(r, vs, s) m. if s > m then s else m) rows (if s' > m then s' else m)"
      by (rule fold_max_ge)
    finally show ?thesis by (simp add: p)
  next
    case False
    with Cons.prems have "(r, vs, s) \<in> set rows" by simp
    from Cons.IH[OF this] show ?thesis by (simp add: p)
  qed
qed

lemma fold_max_mem:
  "fold (\<lambda>(r, vs, s) m. if s > m then s else m) rows (m::real)
     \<in> insert m (set (map (snd \<circ> snd) rows))"
proof (induction rows arbitrary: m)
  case Nil
  then show ?case by simp
next
  case (Cons p rows)
  obtain r vs s where p: "p = (r, vs, s)" by (cases p)
  from Cons.IH[of "if s > m then s else m"] show ?case by (auto simp: p split: if_splits)
qed

lemma max_bm25_is_Max: "max_bm25 rows = Max (insert 0 (set (map (snd \<circ> snd) rows)))"
proof (rule sym, rule Max_eqI)
  show "finite (insert 0 (set (map (snd \<circ> snd) rows)))" by simp
  show "max_bm25 rows \<in> insert 0 (set (map (snd \<circ> snd) rows))"
    unfolding max_bm25_def by (rule fold_max_mem)
  fix y assume "y \<in> insert 0 (set (map (snd \<circ> snd) rows))"
  then show "y \<le> max_bm25 rows"
    unfolding max_bm25_def using fold_max_ge[of 0 rows] fold_max_upper[of _ _ y rows 0]
    by auto
qed

lemma sql_rows_scores:
  assumes "(r, vs, s) \<in> set (sql_rows fts table tag q text limit)"
  shows "r \<in> set table \<and> c_container_tag r = tag \<and> vs = 1 - cosine_distance (c_embedding r) q
       \<and> s = (if fts_matches fts (c_content r) text then fts_rank fts (c_content r) text else 0)"
  using assms by (auto simp: sql_rows_def dest!: in_set_takeD)

lemma to_search_result_scores:
  "sr_vectorScore (to_search_result m (r, vs, s)) = vs"
  "sr_bm25Score (to_search_result m (r, vs, s)) = (if m > 0 then s / m else 0)"
  "sr_score (to_search_result m (r, vs, s)) = 7 / 10 * vs + 3 / 10 * (if m > 0 then s / m else 0)"
  by (simp_all add: to_search_result_def VECTOR_WEIGHT_def BM25_WEIGHT_def)

lemma sorted_descending:
  "sorted_wrt (\<lambda>a b. sr_score b \<le> sr_score a) (sort_key (\<lambda>r. - sr_score r) xs)"
proof -
  have "sorted (map (\<lambda>r. - sr_score r) (sort_key (\<lambda>r. - sr_score r) xs))"
    by (rule sorted_sort_key)
  then show ?thesis by (simp add: sorted_map)
qed

lemma dot_replicate: "dot (replicate n x) (replicate n y) = real n * (x * y)"
  by (simp add: dot_def zip_replicate sum_list_replicate)

lemma opposed_distance:
  "cosine_distance (replicate 3072 1) (replicate 3072 (- 1)) = 2"
  by (simp add: cosine_distance_def dot_replicate)

text \<open>
  Claim C2 says that every result of the hybrid search has \<open>0 \<le> vectorScore \<le> 1\<close>. That
  part fails: \<open>vector_score\<close> is \<open>1 - (embedding <=> query)\<close>, one minus the cosine distance,
  that is the cosine similarity, and the cosine of two opposed vectors is \<open>-1\<close>. One stored
  chunk whose embedding has every one of the 3072 components equal to 1, searched with
  the query embedding whose components are all \<open>-1\<close>, is returned with \<open>vectorScore = -1\<close>.
\<close>

theorem pg_search_negative_vectorScore:
  "pg_search no_fts [chunk_row ''t'' ''t_s1_0'' ''x'' (replicate 3072 1)] ''t''
       (replicate 3072 (- 1)) ''q'' 10
     = Inr [to_search_result 0
              (chunk_row ''t'' ''t_s1_0'' ''x'' (replicate 3072 1), - 1, 0)]
   \<and> sr_vectorScore (to_search_result 0
              (chunk_row ''t'' ''t_s1_0'' ''x'' (replicate 3072 1), - 1, 0)) = - 1"
  by (simp add: pg_search_def sql_rows_def chunk_row_def opposed_distance no_fts_def max_bm25_def
      to_search_result_def Let_def)

text \<open>
  Claim C2 as amended: whenever the search returns (the limit is not negative and the
  stored embeddings of the container have the dimension of the query embedding), the
  full-text rank is never negative and no embedding involved is the zero vector, every
  result satisfies \<open>-1 \<le> vectorScore \<le> 1\<close>, \<open>0 \<le> bm25Score \<le> 1\<close> and \<open>score = 0.7 * vectorScore
  + 0.3 * bm25Score\<close>; the results are the rows of the query, each with its lexical score
  divided by the maximum lexical score of the rows (0 when that maximum is 0), sorted by
  descending score.
\<close>

theorem pg_search_score_contract:
  assumes res: "pg_search fts table containerTag queryEmbedding query limit = Inr results"
    and rank: "\<forall>c t. 0 \<le> fts_rank fts c t"
    and qnz: "0 < dot queryEmbedding queryEmbedding"
    and rnz: "\<forall>row \<in> set table. 0 < dot (c_embedding row) (c_embedding row)"
  shows "(\<forall>r \<in> set results.
            - 1 \<le> sr_vectorScore r \<and> sr_vectorScore r \<le> 1
            \<and> 0 \<le> sr_bm25Score r \<and> sr_bm25Score r \<le> 1
            \<and> sr_score r = 7 / 10 * sr_vectorScore r + 3 / 10 * sr_bm25Score r)
       \<and> sorted_wrt (\<lambda>a b. sr_score b \<le> sr_score a) results
       \<and> results = sort_key (\<lambda>r. - sr_score r)
             (map (to_search_result
                     (Max (insert 0 (set (map (snd \<circ> snd)
                        (sql_rows fts table containerTag queryEmbedding query limit))))))
                (sql_rows fts table containerTag queryEmbedding query limit))
       \<and> (\<forall>m r vs s. sr_vectorScore (to_search_result m (r, vs, s)) = vs
              \<and> sr_bm25Score (to_search_result m (r, vs, s)) = (if m > 0 then s / m else 0))"
proof -
  let ?rows = "sql_rows fts table containerTag queryEmbedding query limit"
  let ?m = "max_bm25 ?rows"
  from res have dims: "\<forall>r \<in> set table. c_container_tag r = containerTag
      \<longrightarrow> length (c_embedding r) = length queryEmbedding"
    by (auto simp: pg_search_def split: if_splits)
  from res have results: "results = sort_key (\<lambda>r. - sr_score r) (map (to_search_result ?m) ?rows)"
    by (auto simp: pg_search_def Let_def split: if_splits)
  have m0: "0 \<le> ?m" unfolding max_bm25_def by (rule fold_max_ge)
  have each: "- 1 \<le> sr_vectorScore x \<and> sr_vectorScore x \<le> 1
            \<and> 0 \<le> sr_bm25Score x \<and> sr_bm25Score x \<le> 1
            \<and> sr_score x = 7 / 10 * sr_vectorScore x + 3 / 10 * sr_bm25Score x"
    if "x \<in> set results" for x
  proof -
    from that results obtain r vs s where row: "(r, vs, s) \<in> set ?rows"
      and x: "x = to_search_result ?m (r, vs, s)" by auto
    from sql_rows_scores[OF row] have r: "r \<in> set table" "c_container_tag r = containerTag"
      and vs: "vs = 1 - cosine_distance (c_embedding r) queryEmbedding"
      and s: "s = (if fts_matches fts (c_content r) query then fts_rank fts (c_content r) query else 0)"
      by simp_all
    from r dims have len: "length (c_embedding r) = length queryEmbedding" by simp
    from r rnz have nz: "0 < dot (c_embedding r) (c_embedding r)" by simp
    have vb: "- 1 \<le> vs \<and> vs \<le> 1" unfolding vs by (rule cosine_bounds[OF len nz qnz])
    have s0: "0 \<le> s" using rank by (simp add: s)
    have sm: "s \<le> ?m" unfolding max_bm25_def by (rule fold_max_upper[OF row])
    have "0 \<le> (if ?m > 0 then s / ?m else 0) \<and> (if ?m > 0 then s / ?m else 0) \<le> 1"
      using s0 sm by (simp add: field_simps)
    with vb show ?thesis by (simp add: x to_search_result_scores)
  qed
  have "sorted_wrt (\<lambda>a b. sr_score b \<le> sr_score a) results"
    unfolding results by (rule sorted_descending)
  moreover have "results = sort_key (\<lambda>r. - sr_score r)
             (map (to_search_result (Max (insert 0 (set (map (snd \<circ> snd) ?rows))))) ?rows)"
    using results by (simp only: max_bm25_is_Max)
  ultimately show ?thesis using each by (simp add: to_search_result_scores)
qed


lemma alice_distances:
  "cosine_distance [0, 1] [1, 0] = 1" "cosine_distance [1, 0] [1, 0] = 0"
  by (simp_all add: cosine_distance_def dot_def)

lemma alice_search:
  "pg_search alice_fts alice_table ''t'' [1, 0] ''alice'' 10 =
     Inr [to_search_result (1 / 2) (chunk_row ''t'' ''t_s1_1'' ''travel'' [1, 0], 1, 0),
          to_search_result (1 / 2) (chunk_row ''t'' ''t_s1_0'' ''met alice'' [0, 1], 0, 1 / 2)]"
  by (simp add: pg_search_def sql_rows_def alice_table_def chunk_row_def alice_distances
      alice_fts_def max_bm25_def Let_def to_search_result_scores)

theorem pg_search_score_contract_witness:
  "pg_search alice_fts alice_table ''t'' [1, 0] ''alice'' 10 =
     Inr [to_search_result (1 / 2) (chunk_row ''t'' ''t_s1_1'' ''travel'' [1, 0], 1, 0),
          to_search_result (1 / 2) (chunk_row ''t'' ''t_s1_0'' ''met alice'' [0, 1], 0, 1 / 2)]
   \<and> list_all (\<lambda>r. - 1 \<le> sr_vectorScore r \<and> sr_vectorScore r \<le> 1
            \<and> 0 \<le> sr_bm25Score r \<and> sr_bm25Score r \<le> 1
            \<and> sr_score r = 7 / 10 * sr_vectorScore r + 3 / 10 * sr_bm25Score r)
       [to_search_result (1 / 2) (chunk_row ''t'' ''t_s1_1'' ''travel'' [1, 0], 1, 0),
        to_search_result (1 / 2) (chunk_row ''t'' ''t_s1_0'' ''met alice'' [0, 1], 0, 1 / 2)]
   \<and> map (\<lambda>r. (sr_content r, sr_score r, sr_vectorScore r, sr_bm25Score r))
       [to_search_result (1 / 2) (chunk_row ''t'' ''t_s1_1'' ''travel'' [1, 0], 1, 0),
        to_search_result (1 / 2) (chunk_row ''t'' ''t_s1_0'' ''met alice'' [0, 1], 0, 1 / 2)]
     = [(''travel'', 7 / 10, 1, 0), (''met alice'', 3 / 10, 0, 1)]"
proof -
  have rank: "\<forall>c t. 0 \<le> fts_rank alice_fts c t" by (simp add: alice_fts_def)
  have qnz: "0 < dot [1, 0] [1, 0]" by (simp add: dot_def)
  have rnz: "\<forall>row \<in> set alice_table. 0 < dot (c_embedding row) (c_embedding row)"
    by (simp add: alice_table_def chunk_row_def dot_def)
  from pg_search_score_contract[OF alice_search rank qnz rnz]
  have "list_all (\<lambda>r. - 1 \<le> sr_vectorScore r \<and> sr_vectorScore r \<le> 1
            \<and> 0 \<le> sr_bm25Score r \<and> sr_bm25Score r \<le> 1
            \<and> sr_score r = 7 / 10 * sr_vectorScore r + 3 / 10 * sr_bm25Score r)
       [to_search_result (1 / 2) (chunk_row ''t'' ''t_s1_1'' ''travel'' [1, 0], 1, 0),
        to_search_result (1 / 2) (chunk_row ''t'' ''t_s1_0'' ''met alice'' [0, 1], 0, 1 / 2)]"
    unfolding list_all_iff by (rule conjunct1)
  moreover have "map (\<lambda>r. (sr_content r, sr_score r, sr_vectorScore r, sr_bm25Score r))
       [to_search_result (1 / 2) (chunk_row ''t'' ''t_s1_1'' ''travel'' [1, 0], 1, 0),
        to_search_result (1 / 2) (chunk_row ''t'' ''t_s1_0'' ''met alice'' [0, 1], 0, 1 / 2)]
     = [(''travel'', 7 / 10, 1, 0), (''met alice'', 3 / 10, 0, 1)]"
    by (simp add: to_search_result_def chunk_row_def VECTOR_WEIGHT_def BM25_WEIGHT_def)
  ultimately show ?thesis using alice_search by simp
qed

section \<open>Properties of the provider\<close>

subsection \<open>Ingest, clear and search of one session\<close>

lemma demo_ingest:
  "ingest demo_co [demo_session] ''t'' (new_RAGProvider\<lparr>openai := True\<rparr>)
     = Some (Inr [''t_s1_0''], demo_ingested)"
  by code_simp

lemma demo_clear:
  "clear ''t'' demo_ingested = demo_ingested\<lparr>searchEngine := [], graphs := []\<rparr>"
  by code_simp

lemma demo_reload:
  "engine_hasData (searchEngine (clear ''t'' demo_ingested)) ''t'' = False"
  "loadFromCache ''t'' (clear ''t'' demo_ingested) = (True, demo_ingested)"
  by code_simp+

lemma demo_graph_results:
  "graph_results demo_ingested ''t'' ''tell me about the Sony'' =
     [EntityPseudoResult \<lparr>r_name = ''Sony A7'', r_type = ''object'', r_summary = ''a camera''\<rparr>,
      EntityPseudoResult \<lparr>r_name = ''Al'', r_type = ''person'', r_summary = ''likes|pipes''\<rparr>,
      RelationshipPseudoResult \<lparr>r_source = ''Al'', r_target = ''Sony A7'', r_relation = ''owns'',
        r_date = Some ''2024-05-09''\<rparr>]"
  by code_simp

lemma demo_engine_search:
  "engine_search no_fts (searchEngine demo_ingested) ''t'' [1] query 40
     = [to_search_result 0 (demo_chunk, 1, 0)]"
  by (simp add: engine_search_def demo_ingested_def map_get_def sql_rows_def demo_chunk_def
      cosine_distance_def dot_def no_fts_def max_bm25_def Let_def)


lemma demo_search:
  "fst (search demo_co ''tell me about the Sony'' ''t'' None (clear ''t'' demo_ingested)) =
     Inr [ChunkResult (to_search_result 0 (demo_chunk, 1, 0)),
          EntityPseudoResult \<lparr>r_name = ''Sony A7'', r_type = ''object'', r_summary = ''a camera''\<rparr>,
          EntityPseudoResult \<lparr>r_name = ''Al'', r_type = ''person'', r_summary = ''likes|pipes''\<rparr>,
          RelationshipPseudoResult \<lparr>r_source = ''Al'', r_target = ''Sony A7'',
            r_relation = ''owns'', r_date = Some ''2024-05-09''\<rparr>]"
proof -
  have init: "openai (clear ''t'' demo_ingested)"
    by (simp add: clear_def demo_ingested_def)
  have co: "co_embed demo_co ''tell me about the Sony'' = Some [1]" "co_lexical demo_co = no_fts"
    by (simp_all add: demo_co_def)
  show ?thesis
    unfolding search_def Let_def
    by (simp add: init demo_reload co RERANK_OVERFETCH_def demo_engine_search demo_graph_results)
qed

text \<open>
  Claim C1 (after \<open>clear(T)\<close>, a search on \<open>T\<close> returns the empty list until a further
  ingest on \<open>T\<close>) does not hold of the code. \<open>ingest\<close> writes the snapshot files of the
  container; \<open>clear\<close> empties the index and the graph in memory and leaves the files; the
  next \<open>search\<close> finds no data in memory, loads the snapshot back and answers from it. One
  session is ingested under the tag \<open>t\<close>, the tag is cleared (the engine then has no data
  for it), and the search returns the ingested chunk, two entities and one relationship.
\<close>

theorem clear_then_search_returns_ingested_data:
  "initialize ''sk-key'' new_RAGProvider = Inr (new_RAGProvider\<lparr>openai := True\<rparr>)
   \<and> map_option
        (\<lambda>(r, p1). (r, engine_hasData (searchEngine (clear ''t'' p1)) ''t'',
                    fst (search demo_co ''tell me about the Sony'' ''t'' None (clear ''t'' p1))))
        (ingest demo_co [demo_session] ''t'' (new_RAGProvider\<lparr>openai := True\<rparr>))
     = Some (Inr [''t_s1_0''], False,
             Inr [ChunkResult (to_search_result 0 (demo_chunk, 1, 0)),
                  EntityPseudoResult \<lparr>r_name = ''Sony A7'', r_type = ''object'',
                    r_summary = ''a camera''\<rparr>,
                  EntityPseudoResult \<lparr>r_name = ''Al'', r_type = ''person'',
                    r_summary = ''likes|pipes''\<rparr>,
                  RelationshipPseudoResult \<lparr>r_source = ''Al'', r_target = ''Sony A7'',
                    r_relation = ''owns'', r_date = Some ''2024-05-09''\<rparr>])"
  by (simp add: initialize_def demo_ingest demo_reload demo_search)

end
